theory Spec2Isabelle
  imports Main
begin

section \<open>JavaScript values\<close>

text \<open>
  A symbol is identified by the moment of its creation: \<open>Symbol(description)\<close> returns a
  value that is equal to no symbol created before or after it, whatever the description.
  The realm keeps the number of symbols created so far.
\<close>

datatype symbol = Symbol nat string

datatype key = KSym symbol | KStr string

text \<open>
  Values. An object carries its properties (own and inherited, as property lookup sees
  them) and its internal slots: an ordinary object has none, a function has what a call
  without arguments does, a future (native or cancelable) has the state of the underlying
  awaitable. A future stands for the object as its handlers see it: with the state in
  which it settled, or \<open>Unsettled\<close> when it never settles.
\<close>

datatype jsval =
    Undefined
  | Null
  | JBool bool
  | JNum int
  | JStr string
  | JObject "(key \<times> jsval) list" internal
and internal =
    Ordinary
  | Callable outcome
  | PromiseState fate
and outcome =
    Returns jsval
  | Throws jsval
and fate =
    Unsettled
  | Fulfilled jsval
  | Rejected jsval

definition TypeError :: "string \<Rightarrow> jsval" where
  "TypeError msg =
     JObject [(KStr ''name'', JStr ''TypeError''), (KStr ''message'', JStr msg)] Ordinary"

definition Error :: "string \<Rightarrow> jsval" where
  "Error msg =
     JObject [(KStr ''name'', JStr ''Error''), (KStr ''message'', JStr msg)] Ordinary"

text \<open>\<open>ToBoolean\<close>, which \<open>!\<close> applies to its operand.\<close>

fun truthy :: "jsval \<Rightarrow> bool" where
  "truthy Undefined = False"
| "truthy Null = False"
| "truthy (JBool b) = b"
| "truthy (JNum n) = (n \<noteq> 0)"
| "truthy (JStr s) = (s \<noteq> [])"
| "truthy (JObject props slots) = True"

text \<open>
  \<open>source[key]\<close>: a TypeError on \<open>null\<close> and \<open>undefined\<close>, \<open>undefined\<close> for a
  property that is not there. The prototypes of the primitive wrappers hold no property
  under the keys used here.
\<close>

fun get_property :: "jsval \<Rightarrow> key \<Rightarrow> jsval + jsval" where
  "get_property Undefined k = Inl (TypeError ''Cannot read properties of undefined'')"
| "get_property Null k = Inl (TypeError ''Cannot read properties of null'')"
| "get_property (JObject props slots) k =
     Inr (case map_of props k of None \<Rightarrow> Undefined | Some v \<Rightarrow> v)"
| "get_property v k = Inr Undefined"

text \<open>\<open>source?.[key]\<close>: the lookup is skipped on \<open>null\<close> and \<open>undefined\<close>.\<close>

definition optional_get :: "jsval \<Rightarrow> key \<Rightarrow> jsval + jsval" where
  "optional_get source k =
     (if source = Null \<or> source = Undefined then Inr Undefined else get_property source k)"

text \<open>\<open>a ?? b\<close>\<close>

definition nullish :: "jsval \<Rightarrow> jsval \<Rightarrow> jsval" where
  "nullish a b = (if a = Null \<or> a = Undefined then b else a)"

text \<open>A call without arguments: what the function does, a TypeError on anything else.\<close>

fun call :: "jsval \<Rightarrow> outcome" where
  "call (JObject props (Callable oc)) = oc"
| "call v = Throws (TypeError ''is not a function'')"

section \<open>The marker: \<open>_shared/index.ts\<close>\<close>

text \<open>
  Evaluating the module creates the marker with \<open>Symbol('promise_identifier')\<close>; the
  argument is the number of symbols the realm has created, the result the module's export
  and the new count.
\<close>

definition load_shared :: "nat \<Rightarrow> symbol \<times> nat" where
  "load_shared next_symbol = (Symbol next_symbol ''promise_identifier'', Suc next_symbol)"

text \<open>
  \<open>isCancelablePromise\<close> of the module copy whose marker is \<open>promise_identifier\<close>:
  \<open>!!source?.[promise_identifier]\<close>.
\<close>

definition isCancelablePromise :: "symbol \<Rightarrow> jsval \<Rightarrow> jsval + bool" where
  "isCancelablePromise promise_identifier source =
     (case optional_get source (KSym promise_identifier) of
        Inl thrown \<Rightarrow> Inl thrown
      | Inr v \<Rightarrow> Inr (\<not> (\<not> truthy v)))"

datatype TPromiseStatus = Pending | Resolved | Rejected_status | Canceled

fun status_string :: "TPromiseStatus \<Rightarrow> jsval" where
  "status_string Pending = JStr ''pending''"
| "status_string Resolved = JStr ''resolved''"
| "status_string Rejected_status = JStr ''rejected''"
| "status_string Canceled = JStr ''canceled''"

text \<open>
  Modelled from the spec: the object a constructor or static of the class
  \<open>CancelablePromise\<close> produces (the class body is not among the sources, only its
  declaration): a future that carries the marker of its own module copy and the field
  \<open>status\<close>.
\<close>

definition CancelablePromise :: "symbol \<Rightarrow> TPromiseStatus \<Rightarrow> fate \<Rightarrow> jsval" where
  "CancelablePromise promise_identifier st ft =
     JObject [(KSym promise_identifier, JBool True), (KStr ''status'', status_string st)]
       (PromiseState ft)"

definition NativePromise :: "fate \<Rightarrow> jsval" where
  "NativePromise ft = JObject [] (PromiseState ft)"

section \<open>\<open>tryCatch\<close>\<close>

datatype TExceptionHandlingType = HError | HWarn | HLog | HIgnore

type_synonym console = "(TExceptionHandlingType \<times> jsval) list"

text \<open>
  The configuration; a field that is absent is \<open>Undefined\<close>, respectively \<open>None\<close>.
\<close>

record TTryCatchCallbackConfig =
  defaultResult :: jsval
  exceptionHandlingType :: "TExceptionHandlingType option"

record TTryCatchCallbackPromiseConfig = TTryCatchCallbackConfig +
  ignoreCancel :: "bool option"

definition TTryCatchResult :: "jsval \<Rightarrow> jsval \<Rightarrow> jsval" where
  "TTryCatchResult err res = JObject [(KStr ''error'', err), (KStr ''result'', res)] Ordinary"

text \<open>The default of a destructured field applies when the field is \<open>undefined\<close>.\<close>

definition errorResult_of :: "jsval \<Rightarrow> jsval" where
  "errorResult_of d = (if d = Undefined then Null else d)"

definition handling_of :: "TExceptionHandlingType option \<Rightarrow> TExceptionHandlingType" where
  "handling_of t = (case t of None \<Rightarrow> HError | Some h \<Rightarrow> h)"

definition tryCatch ::
  "jsval \<Rightarrow> TTryCatchCallbackConfig option \<Rightarrow> console \<Rightarrow> jsval \<times> console" where
  "tryCatch callback config con =
     (let errorResult =
            errorResult_of (case config of None \<Rightarrow> Undefined | Some c \<Rightarrow> defaultResult c);
          exceptionHandlingType =
            handling_of (case config of None \<Rightarrow> None | Some c \<Rightarrow> exceptionHandlingType c)
      in case call callback of
           Returns result \<Rightarrow> (TTryCatchResult Null result, con)
         | Throws err \<Rightarrow>
             (TTryCatchResult err errorResult,
              if exceptionHandlingType \<noteq> HIgnore
              then con @ [(exceptionHandlingType, err)] else con))"

section \<open>\<open>tryCatchPromise\<close>\<close>

fun fate_of :: "jsval \<Rightarrow> fate option" where
  "fate_of (JObject props (PromiseState ft)) = Some ft"
| "fate_of v = None"

text \<open>\<open>Promise.resolve\<close> and \<open>Promise.reject\<close> of the host.\<close>

definition Promise_resolve :: "jsval \<Rightarrow> jsval" where
  "Promise_resolve v = (case fate_of v of None \<Rightarrow> NativePromise (Fulfilled v) | Some ft \<Rightarrow> NativePromise ft)"

definition Promise_reject :: "jsval \<Rightarrow> jsval" where
  "Promise_reject reason = NativePromise (Rejected reason)"

text \<open>
  A handler passed to \<open>then\<close> or \<open>catch\<close>: it receives the value or the reason, may
  write to the console, and returns or throws.
\<close>

type_synonym handler = "jsval \<Rightarrow> console \<Rightarrow> outcome \<times> console"

definition status_of_fate :: "fate \<Rightarrow> TPromiseStatus" where
  "status_of_fate ft =
     (case ft of Unsettled \<Rightarrow> Pending | Fulfilled v \<Rightarrow> Resolved | Rejected r \<Rightarrow> Rejected_status)"


text \<open>
  Modelled from the spec: \<open>toCancelablePromise\<close> (declared in the sources, its body is not
  there). A value that carries the marker is returned unchanged; a native future is
  wrapped by a cancelable future that settles in lockstep with it; a plain value gives a
  cancelable future already resolved with it. A thenable with a \<open>then\<close> of its own is
  not a plain value; the definition is meant for the values that are not thenable.
\<close>

definition toCancelablePromise :: "symbol \<Rightarrow> jsval \<Rightarrow> jsval" where
  "toCancelablePromise promise_identifier source =
     (if isCancelablePromise promise_identifier source = Inr True then source
      else case fate_of source of
             Some ft \<Rightarrow> CancelablePromise promise_identifier (status_of_fate ft) ft
           | None \<Rightarrow> CancelablePromise promise_identifier Resolved (Fulfilled source))"

text \<open>
  Modelled from the spec: how the child made by \<open>then\<close> or \<open>catch\<close> of the class
  \<open>CancelablePromise\<close> settles once its handler has run (the bodies of the methods are not
  among the sources): as in native chaining, it rejects with what the handler throws and
  resolves with what the handler returns, following a future that the handler returns.
\<close>

definition settle_child :: "symbol \<Rightarrow> outcome \<Rightarrow> jsval" where
  "settle_child promise_identifier oc =
     (case oc of
        Throws thrown \<Rightarrow> CancelablePromise promise_identifier Rejected_status (Rejected thrown)
      | Returns v \<Rightarrow>
          (case fate_of v of
             None \<Rightarrow> CancelablePromise promise_identifier Resolved (Fulfilled v)
           | Some ft \<Rightarrow>
               CancelablePromise promise_identifier
                 (if optional_get v (KStr ''status'') = Inr (JStr ''canceled'')
                  then Canceled else status_of_fate ft) ft))"

text \<open>
  Modelled from the spec: the linkage of a child into the cancellation set of its parent.
  The child made by \<open>then\<close>, \<open>catch\<close> or \<open>finally\<close> is a member of the chain of its
  parent, and \<open>cancel\<close> on any member of a chain cancels every member that is still
  pending. \<open>cancelled\<close> is what the rest of the program does to the chain after the
  derivation: \<open>Some reason\<close> when a member of the chain is cancelled with that reason
  while the child is still pending, \<open>None\<close> when that does not happen. A child cancelled
  in this way has the status \<open>canceled\<close> and rejects with the reason of the
  cancellation, whatever its handler returns; otherwise it settles as \<open>settled\<close> says.
\<close>

definition linked_child :: "symbol \<Rightarrow> jsval option \<Rightarrow> jsval \<Rightarrow> jsval" where
  "linked_child promise_identifier cancelled settled =
     (case cancelled of
        None \<Rightarrow> settled
      | Some cancel_reason \<Rightarrow>
          CancelablePromise promise_identifier Canceled (Rejected cancel_reason))"

text \<open>
  Modelled from the spec: the method \<open>then\<close> of the class \<open>CancelablePromise\<close> (declared
  in the sources, its body is not there). The child is a new cancelable future, linked
  into the chain of the parent (\<open>cancelled\<close> is as for \<open>linked_child\<close>). The handlers
  run as in native chaining: the one for the parent's outcome is called with the value or
  the reason, also when the child is cancelled in the meantime. Without a handler for the
  outcome the child takes the parent's outcome, and the status \<open>canceled\<close> of a canceled
  parent with the same reason. A receiver that is no future has no method \<open>then\<close>: the
  call throws.
\<close>

definition CancelablePromise_then ::
  "symbol \<Rightarrow> jsval \<Rightarrow> handler option \<Rightarrow> handler option \<Rightarrow> jsval option \<Rightarrow> console
     \<Rightarrow> jsval + (jsval \<times> console)" where
  "CancelablePromise_then promise_identifier promise onfulfilled onrejected cancelled con =
     (case fate_of promise of
        None \<Rightarrow> Inl (TypeError ''promise.then is not a function'')
      | Some Unsettled \<Rightarrow>
          Inr (linked_child promise_identifier cancelled
                 (CancelablePromise promise_identifier Pending Unsettled), con)
      | Some (Fulfilled v) \<Rightarrow>
          (case onfulfilled of
             None \<Rightarrow>
               Inr (linked_child promise_identifier cancelled
                      (CancelablePromise promise_identifier Resolved (Fulfilled v)), con)
           | Some h \<Rightarrow>
               (case h v con of (oc, con') \<Rightarrow>
                  Inr (linked_child promise_identifier cancelled
                         (settle_child promise_identifier oc), con')))
      | Some (Rejected reason) \<Rightarrow>
          (case onrejected of
             None \<Rightarrow>
               Inr (linked_child promise_identifier cancelled
                      (CancelablePromise promise_identifier
                         (if optional_get promise (KStr ''status'') = Inr (JStr ''canceled'')
                          then Canceled else Rejected_status) (Rejected reason)), con)
           | Some h \<Rightarrow>
               (case h reason con of (oc, con') \<Rightarrow>
                  Inr (linked_child promise_identifier cancelled
                         (settle_child promise_identifier oc), con'))))"

text \<open>
  Modelled from the spec: the method \<open>catch\<close> of the class \<open>CancelablePromise\<close> (declared
  in the sources, its body is not there): \<open>then\<close> with a rejection handler only.
\<close>

definition CancelablePromise_catch ::
  "symbol \<Rightarrow> jsval \<Rightarrow> handler \<Rightarrow> jsval option \<Rightarrow> console
     \<Rightarrow> jsval + (jsval \<times> console)" where
  "CancelablePromise_catch promise_identifier promise onrejected cancelled con =
     CancelablePromise_then promise_identifier promise None (Some onrejected) cancelled con"

definition TTryCatchPromiseResult :: "jsval \<Rightarrow> jsval \<Rightarrow> jsval \<Rightarrow> jsval" where
  "TTryCatchPromiseResult err res promise =
     JObject [(KStr ''error'', err), (KStr ''result'', res), (KStr ''promise'', promise)] Ordinary"

text \<open>
  The closure \<open>logger\<close>; \<open>promise\<close> is the value of the local variable of that name when
  the closure runs. Its assignment to the local \<open>error\<close> is read back only by the
  \<open>catch\<close> block, which is modelled there.
\<close>

definition logger ::
  "TExceptionHandlingType \<Rightarrow> bool \<Rightarrow> jsval \<Rightarrow> jsval \<Rightarrow> console \<Rightarrow> jsval + console" where
  "logger handlingType ignoreCanceled promise err con =
     (if handlingType = HIgnore then Inr con
      else case optional_get promise (KStr ''status'') of
             Inl thrown \<Rightarrow> Inl thrown
           | Inr st \<Rightarrow>
               (let isCancel = (st = JStr ''canceled'')
                in if isCancel \<and> ignoreCanceled then Inr con
                   else Inr (con @ [(handlingType, err)])))"

text \<open>
  \<open>promise.then(result => ({error: null, result, promise})).catch(error => {logger(error);
  return {error, result: errorResult, promise}})\<close>, written twice in the source. Both
  children are members of the chain of \<open>promise\<close>; \<open>cancelled\<close> says whether a member of
  that chain is cancelled after the call, while the future returned is still pending.
\<close>

definition then_catch ::
  "symbol \<Rightarrow> jsval \<Rightarrow> TExceptionHandlingType \<Rightarrow> bool \<Rightarrow> jsval \<Rightarrow> jsval option \<Rightarrow> console
     \<Rightarrow> jsval + (jsval \<times> console)" where
  "then_catch promise_identifier errorResult handlingType ignoreCanceled promise cancelled con =
     (case CancelablePromise_then promise_identifier promise
             (Some (\<lambda>result c. (Returns (TTryCatchPromiseResult Null result promise), c))) None
             cancelled con of
        Inl thrown \<Rightarrow> Inl thrown
      | Inr (child, con1) \<Rightarrow>
          CancelablePromise_catch promise_identifier child
            (\<lambda>err c.
               case logger handlingType ignoreCanceled promise err c of
                 Inl thrown \<Rightarrow> (Throws thrown, c)
               | Inr c' \<Rightarrow> (Returns (TTryCatchPromiseResult err errorResult promise), c'))
            cancelled con1)"

text \<open>
  The \<open>try\<close> block. An exception leaves it together with the value the local variable
  \<open>promise\<close> has at that moment, which the \<open>catch\<close> block reads.
\<close>

definition try_block ::
  "symbol \<Rightarrow> jsval \<Rightarrow> TExceptionHandlingType \<Rightarrow> bool \<Rightarrow> jsval \<Rightarrow> jsval option \<Rightarrow> console
     \<Rightarrow> (jsval \<times> jsval) + (jsval \<times> console)" where
  "try_block promise_identifier errorResult handlingType ignoreCanceled source cancelled con =
     (case isCancelablePromise promise_identifier source of
        Inl thrown \<Rightarrow> Inl (thrown, Null)
      | Inr isSourceCancelablePromise \<Rightarrow>
          if isSourceCancelablePromise then
            (case then_catch promise_identifier errorResult handlingType ignoreCanceled
                    source cancelled con of
               Inl thrown \<Rightarrow> Inl (thrown, source)
             | Inr returned \<Rightarrow> Inr returned)
          else
            (case call source of
               Throws thrown \<Rightarrow> Inl (thrown, Null)
             | Returns callbackResult \<Rightarrow>
                 if callbackResult = Undefined then
                   Inr (Promise_reject (Error
                     ''tryCatchPromise: callback parameter must return a value () => promise''), con)
                 else
                   (case isCancelablePromise promise_identifier callbackResult of
                      Inl thrown \<Rightarrow> Inl (thrown, Null)
                    | Inr marked \<Rightarrow>
                        (let promise = (if marked then callbackResult
                                        else toCancelablePromise promise_identifier callbackResult)
                         in case then_catch promise_identifier errorResult handlingType
                                   ignoreCanceled promise cancelled con of
                              Inl thrown \<Rightarrow> Inl (thrown, promise)
                            | Inr returned \<Rightarrow> Inr returned))))"

text \<open>
  \<open>tryCatchPromise\<close>: \<open>Inl\<close> is an exception thrown to the caller, \<open>Inr\<close> the future
  returned, with the console after the call and the handlers it registered. Besides the
  source and the configuration the function depends on what happens after the call:
  \<open>cancelled\<close> is \<open>Some reason\<close> when a member of the chain of the future returned (that
  future or the one it awaits) is cancelled with that reason while the future returned is
  still pending, and \<open>None\<close> when nobody cancels.
\<close>

definition tryCatchPromise ::
  "symbol \<Rightarrow> jsval \<Rightarrow> TTryCatchCallbackPromiseConfig option \<Rightarrow> jsval option \<Rightarrow> console
     \<Rightarrow> jsval + (jsval \<times> console)" where
  "tryCatchPromise promise_identifier source config cancelled con =
     (let errorResult =
            errorResult_of (case config of None \<Rightarrow> Undefined | Some c \<Rightarrow> defaultResult c);
          exceptionHandlingType =
            handling_of (case config of None \<Rightarrow> None | Some c \<Rightarrow> exceptionHandlingType c);
          ignoreCancel =
            (case (case config of None \<Rightarrow> None | Some c \<Rightarrow> ignoreCancel c) of
               None \<Rightarrow> True | Some b \<Rightarrow> b)
      in case try_block promise_identifier errorResult exceptionHandlingType ignoreCancel
                source cancelled con of
           Inr returned \<Rightarrow> Inr returned
         | Inl (thrown, promise) \<Rightarrow>
             (case logger exceptionHandlingType ignoreCancel promise thrown con of
                Inl thrown' \<Rightarrow> Inl thrown'
              | Inr con' \<Rightarrow>
                  Inr (Promise_resolve (TTryCatchPromiseResult thrown errorResult promise), con')))"

section \<open>The cancelable future and its chain\<close>

text \<open>
  Modelled from the spec: the class \<open>CancelablePromise\<close> (the sources hold its declaration
  and documentation only): its constructor, \<open>resolve\<close>, \<open>reject\<close>, \<open>cancel\<close>,
  \<open>onCancel\<close> and the linking done by \<open>then\<close>, \<open>catch\<close> and \<open>finally\<close>.

  The futures live in a heap and are named by their index. A future has its status, the
  cancel callbacks registered on it, the chain it belongs to (named by the index of the
  chain's origin) and the state of the underlying awaitable. A cancel callback is named by
  a number; the heap records each invocation of a callback with the reason passed.
\<close>

type_synonym callback = nat

record future =
  status :: TPromiseStatus
  ownCancelCallbacks :: "callback list"
  chain_id :: nat
  awaitable :: fate

record heap =
  futures :: "future list"
  invoked :: "(callback \<times> jsval) list"

text \<open>
  Modelled from the spec: the state in which the constructor and the derivation create a
  future: pending, with no callback and an unsettled awaitable.
\<close>

definition pending_future :: "nat \<Rightarrow> future" where
  "pending_future c =
     \<lparr>status = Pending, ownCancelCallbacks = [], chain_id = c, awaitable = Unsettled\<rparr>"

text \<open>
  Modelled from the spec: \<open>resolve\<close>: no effect on a settled future; otherwise the status
  becomes \<open>resolved\<close> and the underlying awaitable fulfils with the value.
\<close>

definition resolve :: "nat \<Rightarrow> jsval \<Rightarrow> heap \<Rightarrow> heap" where
  "resolve f v hp =
     (if f < length (futures hp) \<and> status (futures hp ! f) = Pending
      then hp\<lparr>futures := (futures hp)[f := (futures hp ! f)
                 \<lparr>status := Resolved, awaitable := Fulfilled v\<rparr>]\<rparr>
      else hp)"

text \<open>
  Modelled from the spec: \<open>reject\<close>: no effect on a settled future; otherwise the status
  becomes \<open>rejected\<close> and the underlying awaitable rejects with the reason.
\<close>

definition reject :: "nat \<Rightarrow> jsval \<Rightarrow> heap \<Rightarrow> heap" where
  "reject f reason hp =
     (if f < length (futures hp) \<and> status (futures hp ! f) = Pending
      then hp\<lparr>futures := (futures hp)[f := (futures hp ! f)
                 \<lparr>status := Rejected_status, awaitable := Rejected reason\<rparr>]\<rparr>
      else hp)"

text \<open>
  Modelled from the spec: what \<open>cancel\<close> does to one member of the chain. The member's
  own callbacks are invoked with the reason, in the order of their registration, and
  cleared: they are invoked once. A member that is still pending becomes \<open>canceled\<close> and
  its awaitable rejects with the reason; a member that has settled keeps its status and
  its settlement (once a future has left \<open>pending\<close> its status never changes).
\<close>

definition cancel_member :: "jsval \<Rightarrow> nat \<Rightarrow> heap \<Rightarrow> heap" where
  "cancel_member reason m hp =
     (if m < length (futures hp)
      then hp\<lparr>futures := (futures hp)[m :=
                 (if status (futures hp ! m) = Pending
                  then (futures hp ! m)
                         \<lparr>status := Canceled, ownCancelCallbacks := [], awaitable := Rejected reason\<rparr>
                  else (futures hp ! m)\<lparr>ownCancelCallbacks := []\<rparr>)],
              invoked := invoked hp @ map (\<lambda>cb. (cb, reason)) (ownCancelCallbacks (futures hp ! m))\<rparr>
      else hp)"

text \<open>
  Modelled from the spec: the members of a chain, the futures derived from one another
  through \<open>then\<close>, \<open>catch\<close> and \<open>finally\<close>, in the order of their creation.
\<close>

definition members :: "nat \<Rightarrow> heap \<Rightarrow> nat list" where
  "members c hp = filter (\<lambda>m. chain_id (futures hp ! m) = c) [0..<length (futures hp)]"

text \<open>
  Modelled from the spec: \<open>cancel\<close>: no effect on a settled future; otherwise every member
  of the chain is cancelled, in the order in which the members were linked.
\<close>

definition cancel :: "nat \<Rightarrow> jsval \<Rightarrow> heap \<Rightarrow> heap" where
  "cancel f reason hp =
     (if f < length (futures hp) \<and> status (futures hp ! f) = Pending
      then fold (cancel_member reason) (members (chain_id (futures hp ! f)) hp) hp
      else hp)"

text \<open>
  Modelled from the spec: \<open>onCancel\<close> registers a callback on the future's own list, after
  those registered before.
\<close>

definition onCancel :: "nat \<Rightarrow> callback \<Rightarrow> heap \<Rightarrow> heap" where
  "onCancel f cb hp =
     (if f < length (futures hp)
      then hp\<lparr>futures := (futures hp)[f := (futures hp ! f)
                 \<lparr>ownCancelCallbacks := ownCancelCallbacks (futures hp ! f) @ [cb]\<rparr>]\<rparr>
      else hp)"

text \<open>
  A constructor callback is given as the calls it makes, in order, on the \<open>resolve\<close>,
  \<open>reject\<close> and \<open>utils\<close> it receives.
\<close>

datatype action = DoResolve jsval | DoReject jsval | DoCancel jsval | DoOnCancel callback

fun perform :: "nat \<Rightarrow> action \<Rightarrow> heap \<Rightarrow> heap" where
  "perform f (DoResolve v) hp = resolve f v hp"
| "perform f (DoReject reason) hp = reject f reason hp"
| "perform f (DoCancel reason) hp = cancel f reason hp"
| "perform f (DoOnCancel cb) hp = onCancel f cb hp"

text \<open>
  Modelled from the spec: the constructor creates a pending future that starts a chain of
  its own and runs the callback at once, on that future.
\<close>

definition construct :: "action list \<Rightarrow> heap \<Rightarrow> nat \<times> heap" where
  "construct callback hp =
     (let f = length (futures hp)
      in (f, fold (perform f) callback (hp\<lparr>futures := futures hp @ [pending_future f]\<rparr>)))"

text \<open>
  Modelled from the spec: the linking done by \<open>then\<close>, \<open>catch\<close> and \<open>finally\<close>: they
  produce a new pending future in the chain of the future they are called on; the child
  settles later, through its own \<open>resolve\<close>, \<open>reject\<close> or \<open>cancel\<close>.
\<close>

definition createChildPromise :: "nat \<Rightarrow> heap \<Rightarrow> nat \<times> heap" where
  "createChildPromise parent hp =
     (length (futures hp),
      if parent < length (futures hp)
      then hp\<lparr>futures := futures hp @ [pending_future (chain_id (futures hp ! parent))]\<rparr>
      else hp)"

text \<open>Everything a program can do to the futures of a heap, one call at a time.\<close>

datatype operation =
    New "action list"
  | Derive nat
  | OnCancel nat callback
  | Resolve nat jsval
  | Reject nat jsval
  | Cancel nat jsval

fun step :: "operation \<Rightarrow> heap \<Rightarrow> heap" where
  "step (New callback) hp = snd (construct callback hp)"
| "step (Derive parent) hp = snd (createChildPromise parent hp)"
| "step (OnCancel f cb) hp = onCancel f cb hp"
| "step (Resolve f v) hp = resolve f v hp"
| "step (Reject f reason) hp = reject f reason hp"
| "step (Cancel f reason) hp = cancel f reason hp"

text \<open>The future \<open>f\<close> of the heap as a value: what \<open>f.status\<close> reads and how it settled.\<close>

definition future_value :: "symbol \<Rightarrow> heap \<Rightarrow> nat \<Rightarrow> jsval" where
  "future_value promise_identifier hp f =
     CancelablePromise promise_identifier (status (futures hp ! f)) (awaitable (futures hp ! f))"

text \<open>The heap before any future is created.\<close>

definition empty_heap :: heap where
  "empty_heap = \<lparr>futures = [], invoked = []\<rparr>"

text \<open>
  Two notions for stating what a settled future keeps: \<open>f\<close> has left \<open>pending\<close> in a
  heap, and \<open>f\<close> has in a later heap the status and the settlement it has in an earlier one.
\<close>

definition settled :: "nat \<Rightarrow> heap \<Rightarrow> bool" where
  "settled f hp = (f < length (futures hp) \<and> status (futures hp ! f) \<noteq> Pending)"

definition same_settlement :: "nat \<Rightarrow> heap \<Rightarrow> heap \<Rightarrow> bool" where
  "same_settlement f hp hp' =
     (f < length (futures hp') \<and> status (futures hp' ! f) = status (futures hp ! f)
      \<and> awaitable (futures hp' ! f) = awaitable (futures hp ! f))"

section \<open>The group scheduler\<close>

text \<open>
  Modelled from the spec: \<open>groupAsCancelablePromise\<close> (declared in the sources, its body is
  not there), up to the resolution of the group. A source is a thunk, given by the
  future or awaitable it returns when it is called, or a future or awaitable itself.
\<close>

datatype task_source = Thunk jsval | Awaitable jsval

record TCancelablePromiseGroupConfig =
  maxConcurrent :: "nat option"
  executeInOrder :: "bool option"

datatype event = BeforeEach | AfterEach fate | QueueEmpty "fate option list"

text \<open>
  The state of one invocation: the cursor over the sources, the indices of the members in
  flight, the results by original index (a slot is empty until its member settles), and
  the hooks called so far.
\<close>

record group =
  cursor :: nat
  active :: "nat list"
  results :: "fate option list"
  events :: "event list"

text \<open>
  Modelled from the spec: the member built from a source when it is dispatched: the
  source, or what the thunk returns, normalized by \<open>toCancelablePromise\<close>.
\<close>

definition member_of :: "symbol \<Rightarrow> task_source \<Rightarrow> jsval" where
  "member_of promise_identifier src =
     toCancelablePromise promise_identifier (case src of Thunk returned \<Rightarrow> returned | Awaitable a \<Rightarrow> a)"

text \<open>How the member of a source settles.\<close>

definition member_fate :: "symbol \<Rightarrow> task_source \<Rightarrow> fate" where
  "member_fate promise_identifier src =
     (case fate_of (member_of promise_identifier src) of None \<Rightarrow> Unsettled | Some ft \<Rightarrow> ft)"

text \<open>
  Modelled from the spec: the number of members that may be in flight: \<open>maxConcurrent\<close>,
  8 when it is not given, and 1 when \<open>executeInOrder\<close> is set.
\<close>

definition concurrency :: "TCancelablePromiseGroupConfig option \<Rightarrow> nat" where
  "concurrency config =
     (let inOrder = (case (case config of None \<Rightarrow> None | Some c \<Rightarrow> executeInOrder c) of
                       None \<Rightarrow> False | Some b \<Rightarrow> b);
          limit = (case (case config of None \<Rightarrow> None | Some c \<Rightarrow> maxConcurrent c) of
                     None \<Rightarrow> 8 | Some k \<Rightarrow> k)
      in if inOrder then 1 else limit)"

text \<open>
  Modelled from the spec: the dispatch loop of \<open>groupAsCancelablePromise\<close>. While fewer
  members than the limit are in flight and a source has not been started, the
  next source is dispatched: \<open>beforeEachCallback\<close> is called and the member is in flight
  under its original index.
\<close>

function dispatch :: "nat \<Rightarrow> nat \<Rightarrow> group \<Rightarrow> group" where
  "dispatch limit n g =
     (if length (active g) < limit \<and> cursor g < n
      then dispatch limit n
             (g\<lparr>cursor := Suc (cursor g), active := active g @ [cursor g],
                events := events g @ [BeforeEach]\<rparr>)
      else g)"
  by pat_completeness auto
termination
  by (relation "measure (\<lambda>(limit, n, g). n - cursor g)") auto

declare dispatch.simps [simp del]

text \<open>
  Modelled from the spec: every source has settled when all have been started and none is
  in flight; \<open>onQueueEmptyCallback\<close> is then called with the results.
\<close>

definition queue_empty :: "nat \<Rightarrow> group \<Rightarrow> bool" where
  "queue_empty n g = (cursor g = n \<and> active g = [])"

definition announce :: "nat \<Rightarrow> group \<Rightarrow> group" where
  "announce n g = (if queue_empty n g then g\<lparr>events := events g @ [QueueEmpty (results g)]\<rparr> else g)"

text \<open>
  Modelled from the spec: the settlement of a member of \<open>groupAsCancelablePromise\<close>. The
  member at position \<open>k\<close> among those in flight settles: it leaves the members in
  flight, its result is recorded at its original index, \<open>afterEachCallback\<close> is called
  and the next source is dispatched. A member that never settles is never the one that
  settles.
\<close>

definition member_settles ::
  "symbol \<Rightarrow> task_source list \<Rightarrow> nat \<Rightarrow> nat \<Rightarrow> group \<Rightarrow> group" where
  "member_settles promise_identifier sources limit k g =
     (if k < length (active g) \<and> active g ! k < length sources
         \<and> member_fate promise_identifier (sources ! (active g ! k)) \<noteq> Unsettled
      then
        (let i = active g ! k;
             ft = member_fate promise_identifier (sources ! i)
         in announce (length sources)
              (dispatch limit (length sources)
                 (g\<lparr>active := take k (active g) @ drop (Suc k) (active g),
                    results := (results g)[i := Some ft],
                    events := events g @ [AfterEach ft]\<rparr>)))
      else g)"

text \<open>
  Modelled from the spec: a run of \<open>groupAsCancelablePromise\<close>: the first sources are
  dispatched, then the members settle in the order the schedule gives (each entry names a
  position among the members then in flight).
\<close>

definition run_group ::
  "symbol \<Rightarrow> task_source list \<Rightarrow> TCancelablePromiseGroupConfig option \<Rightarrow> nat list \<Rightarrow> group" where
  "run_group promise_identifier sources config schedule =
     fold (member_settles promise_identifier sources (concurrency config)) schedule
       (announce (length sources)
          (dispatch (concurrency config) (length sources)
             \<lparr>cursor = 0, active = [], results = replicate (length sources) None, events = []\<rparr>))"

text \<open>
  Modelled from the spec: the value of the group future of \<open>groupAsCancelablePromise\<close>
  after a run: resolved with the results by original index when every source has settled,
  pending otherwise.
\<close>

definition groupAsCancelablePromise ::
  "symbol \<Rightarrow> task_source list \<Rightarrow> TCancelablePromiseGroupConfig option \<Rightarrow> nat list
     \<Rightarrow> fate option list option" where
  "groupAsCancelablePromise promise_identifier sources config schedule =
     (let g = run_group promise_identifier sources config schedule
      in if queue_empty (length sources) g then Some (results g) else None)"

text \<open>
  What holds of the state throughout a run: there is one slot per source, the members in
  flight have been started, a filled slot holds the settlement of the member of its own
  index, and the slot of a member that was started and is no longer in flight is filled.
\<close>

definition group_inv :: "symbol \<Rightarrow> task_source list \<Rightarrow> group \<Rightarrow> bool" where
  "group_inv pid sources g =
     (length (results g) = length sources \<and> cursor g \<le> length sources
      \<and> (\<forall>i\<in>set (active g). i < cursor g)
      \<and> (\<forall>i<length sources. results g ! i = None
            \<or> (results g ! i = Some (member_fate pid (sources ! i))
                \<and> member_fate pid (sources ! i) \<noteq> Unsettled))
      \<and> (\<forall>i<cursor g. i \<notin> set (active g) \<longrightarrow> results g ! i \<noteq> None))"

text \<open>The sources not yet started and the members in flight, counted together.\<close>

definition in_flight_inv :: "nat \<Rightarrow> nat \<Rightarrow> group \<Rightarrow> bool" where
  "in_flight_inv n m g =
     (cursor g \<le> n \<and> (\<forall>i\<in>set (active g). i < cursor g)
      \<and> (n - cursor g) + length (active g) = m)"

section \<open>Properties of the marker test\<close>

lemma optional_get_Inr: "\<exists>v. optional_get source k = Inr v"
  by (cases source) (simp_all add: optional_get_def)

lemma isCancelablePromise_object:
  "isCancelablePromise pid (JObject props slots) =
     Inr (case map_of props (KSym pid) of None \<Rightarrow> False | Some v \<Rightarrow> truthy v)"
  by (simp add: isCancelablePromise_def optional_get_def split: option.split)

lemma isCancelablePromise_not_object:
  "(\<forall>props slots. source \<noteq> JObject props slots) \<Longrightarrow> isCancelablePromise pid source = Inr False"
  by (cases source) (simp_all add: isCancelablePromise_def optional_get_def)

lemma isCancelablePromise_own:
  "isCancelablePromise pid (CancelablePromise pid st ft) = Inr True"
  by (simp add: CancelablePromise_def isCancelablePromise_object)

lemma isCancelablePromise_other:
  "pid' \<noteq> pid \<Longrightarrow> isCancelablePromise pid (CancelablePromise pid' st ft) = Inr False"
  by (cases st) (simp_all add: CancelablePromise_def isCancelablePromise_object)

lemma isCancelablePromise_native: "isCancelablePromise pid (NativePromise ft) = Inr False"
  by (simp add: NativePromise_def isCancelablePromise_object)

section \<open>The marker test is total\<close>

text \<open>
  C9. \<open>isCancelablePromise\<close> is total: on \<open>null\<close>, on \<open>undefined\<close> and on every
  other value that has no property under the marker it returns \<open>false\<close>, and on no value
  does it throw. The lookup alone would throw on \<open>null\<close> and \<open>undefined\<close>; the optional
  chaining skips it there, and the double negation turns the property's value into a boolean.
\<close>

theorem isCancelablePromise_total:
  "isCancelablePromise pid Null = Inr False
   \<and> isCancelablePromise pid Undefined = Inr False
   \<and> ((\<forall>props slots. source = JObject props slots \<longrightarrow> map_of props (KSym pid) = None)
        \<longrightarrow> isCancelablePromise pid source = Inr False)
   \<and> (\<exists>b. isCancelablePromise pid anything = Inr b)
   \<and> (\<exists>thrown. get_property Null (KSym pid) = Inl thrown)
   \<and> (\<exists>thrown. get_property Undefined (KSym pid) = Inl thrown)"
proof -
  have nullish_false:
    "isCancelablePromise pid Null = Inr False" "isCancelablePromise pid Undefined = Inr False"
    by (simp_all add: isCancelablePromise_def optional_get_def)
  have lacking: "(\<forall>props slots. source = JObject props slots \<longrightarrow> map_of props (KSym pid) = None)
        \<longrightarrow> isCancelablePromise pid source = Inr False"
    by (cases source) (simp_all add: isCancelablePromise_def optional_get_def)
  have returns: "\<exists>b. isCancelablePromise pid anything = Inr b"
    using optional_get_Inr [of anything "KSym pid"] by (auto simp: isCancelablePromise_def)
  show ?thesis using nullish_false lacking returns by simp
qed

theorem isCancelablePromise_total_witness:
  "isCancelablePromise (Symbol 0 ''promise_identifier'') (JObject [(KStr ''then'', JNum 7)] Ordinary)
     = Inr False
   \<and> isCancelablePromise (Symbol 0 ''promise_identifier'') Null = Inr False"
proof -
  have lacking: "\<forall>props slots. JObject [(KStr ''then'', JNum 7)] Ordinary = JObject props slots
      \<longrightarrow> map_of props (KSym (Symbol 0 ''promise_identifier'')) = None"
    by simp
  show ?thesis
    using lacking isCancelablePromise_total [of "Symbol 0 ''promise_identifier''"
        "JObject [(KStr ''then'', JNum 7)] Ordinary" Null]
    by blast
qed

section \<open>The marker belongs to one copy of the module\<close>

text \<open>
  C5, as stated, fails: the marker is created by \<open>Symbol('promise_identifier')\<close> each time
  the module is evaluated, so a second copy of the library loaded into the same realm has
  a marker of its own, and the first copy's \<open>isCancelablePromise\<close> answers \<open>false\<close> on a
  pending future built by the second copy.
\<close>

theorem isCancelablePromise_second_copy_counterexample:
  "isCancelablePromise (fst (load_shared 0))
     (CancelablePromise (fst (load_shared (snd (load_shared 0)))) Pending Unsettled) = Inr False"
  by (simp add: load_shared_def isCancelablePromise_other)

text \<open>
  C5, amended. \<open>isCancelablePromise\<close> of a copy of the module returns \<open>true\<close> exactly on
  the objects whose property under that copy's own marker is truthy: on every instance
  built with that marker, on no native future, and on no instance built by a copy loaded
  separately, whose marker is another symbol.
\<close>

theorem isCancelablePromise_marker:
  "isCancelablePromise pid x =
     Inr (\<exists>props slots v. x = JObject props slots \<and> map_of props (KSym pid) = Some v \<and> truthy v)
   \<and> isCancelablePromise pid (CancelablePromise pid st ft) = Inr True
   \<and> isCancelablePromise pid (NativePromise ft) = Inr False
   \<and> isCancelablePromise pid (JObject [] Ordinary) = Inr False
   \<and> (load_shared n = (pid, n') \<and> load_shared n' = (pid', n'') \<longrightarrow>
        pid' \<noteq> pid \<and> isCancelablePromise pid (CancelablePromise pid' st ft) = Inr False
        \<and> isCancelablePromise pid' (CancelablePromise pid' st ft) = Inr True)"
proof -
  have exact: "isCancelablePromise pid x =
     Inr (\<exists>props slots v. x = JObject props slots \<and> map_of props (KSym pid) = Some v \<and> truthy v)"
  proof (cases x)
    case (JObject props slots)
    then show ?thesis by (simp add: isCancelablePromise_object split: option.split)
  qed (simp_all add: isCancelablePromise_not_object)
  have copies: "load_shared n = (pid, n') \<and> load_shared n' = (pid', n'') \<longrightarrow>
        pid' \<noteq> pid \<and> isCancelablePromise pid (CancelablePromise pid' st ft) = Inr False
        \<and> isCancelablePromise pid' (CancelablePromise pid' st ft) = Inr True"
    by (auto simp: load_shared_def isCancelablePromise_other isCancelablePromise_own)
  show ?thesis
    using exact copies isCancelablePromise_own [of pid st ft] isCancelablePromise_native [of pid ft]
    by (simp add: isCancelablePromise_object)
qed

theorem isCancelablePromise_marker_witness:
  "load_shared 0 = (Symbol 0 ''promise_identifier'', 1)
   \<and> load_shared 1 = (Symbol 1 ''promise_identifier'', 2)
   \<and> isCancelablePromise (Symbol 0 ''promise_identifier'')
         (CancelablePromise (Symbol 1 ''promise_identifier'') Resolved (Fulfilled (JNum 1))) = Inr False
   \<and> isCancelablePromise (Symbol 0 ''promise_identifier'')
         (CancelablePromise (Symbol 0 ''promise_identifier'') Resolved (Fulfilled (JNum 1))) = Inr True"
proof -
  have loads: "load_shared 0 = (Symbol 0 ''promise_identifier'', 1)"
    "load_shared 1 = (Symbol 1 ''promise_identifier'', 2)"
    by (simp_all add: load_shared_def)
  show ?thesis
    using loads isCancelablePromise_marker [of "Symbol 0 ''promise_identifier''" Null Resolved
        "Fulfilled (JNum 1)" 0 1 "Symbol 1 ''promise_identifier''" 2]
    by simp
qed

section \<open>\<open>tryCatch\<close> returns a record on both paths\<close>

text \<open>
  C6. \<open>tryCatch(callback, config)\<close> calls the callback once. When the call returns
  \<open>r\<close> the result is \<open>{error: null, result: r}\<close> and nothing is logged. When it throws
  \<open>e\<close> the result is \<open>{error: e, result: config.defaultResult ?? null}\<close>, and \<open>e\<close> is
  logged once at the configured severity (\<open>error\<close> when none is configured) unless the
  severity is \<open>ignore\<close>.
\<close>

theorem tryCatch_result:
  "(call callback = Returns r \<longrightarrow>
      tryCatch callback config con = (TTryCatchResult Null r, con))
   \<and> (call callback = Throws e \<longrightarrow>
      fst (tryCatch callback config con) =
        TTryCatchResult e (nullish (case config of None \<Rightarrow> Undefined | Some c \<Rightarrow> defaultResult c) Null)
      \<and> snd (tryCatch callback config con) =
        (let severity = (case config of None \<Rightarrow> HError
                         | Some c \<Rightarrow> (case exceptionHandlingType c of None \<Rightarrow> HError | Some h \<Rightarrow> h))
         in if severity = HIgnore then con else con @ [(severity, e)]))"
  by (cases config)
    (auto simp: tryCatch_def Let_def errorResult_of_def handling_of_def nullish_def
      split: option.splits)

theorem tryCatch_result_witness:
  "call (JObject [] (Callable (Throws (JStr ''boom'')))) = Throws (JStr ''boom'')
   \<and> tryCatch (JObject [] (Callable (Throws (JStr ''boom''))))
        (Some \<lparr>defaultResult = JNum 0, exceptionHandlingType = Some HWarn\<rparr>) []
      = (TTryCatchResult (JStr ''boom'') (JNum 0), [(HWarn, JStr ''boom'')])
   \<and> call (JObject [] (Callable (Returns (JStr ''result'')))) = Returns (JStr ''result'')
   \<and> tryCatch (JObject [] (Callable (Returns (JStr ''result'')))) None []
      = (TTryCatchResult Null (JStr ''result''), [])"
  using tryCatch_result [of "JObject [] (Callable (Throws (JStr ''boom'')))" "JStr ''result''"
      "Some \<lparr>defaultResult = JNum 0, exceptionHandlingType = Some HWarn\<rparr>" "[]" "JStr ''boom''"]
    tryCatch_result [of "JObject [] (Callable (Returns (JStr ''result'')))" "JStr ''result''"
      None "[]" "JStr ''boom''"]
  by (simp add: nullish_def prod_eq_iff)

section \<open>\<open>tryCatchPromise\<close>: helper facts\<close>

lemma fate_of_CancelablePromise: "fate_of (CancelablePromise pid st ft) = Some ft"
  by (simp add: CancelablePromise_def)

lemma fate_of_record: "fate_of (TTryCatchPromiseResult e r p) = None"
  by (simp add: TTryCatchPromiseResult_def)



lemma logger_Inr: "\<exists>con'. logger h i p e con = Inr con'"
  using optional_get_Inr [of p "KStr ''status''"]
  by (auto simp: logger_def Let_def)

lemma logger_Null: "logger h i Null e con = Inr (if h = HIgnore then con else con @ [(h, e)])"
  by (simp add: logger_def optional_get_def)

lemma linked_child_None: "linked_child pid None child = child"
  by (simp add: linked_child_def)

lemma linked_child_Some:
  "linked_child pid (Some reason) child = CancelablePromise pid Canceled (Rejected reason)"
  by (simp add: linked_child_def)

lemma then_catch_no_future:
  "fate_of p = None \<Longrightarrow>
   then_catch pid d h i p cl con = Inl (TypeError ''promise.then is not a function'')"
  by (simp add: then_catch_def CancelablePromise_then_def)

lemma then_catch_unsettled:
  "fate_of p = Some Unsettled \<Longrightarrow>
   then_catch pid d h i p None con = Inr (CancelablePromise pid Pending Unsettled, con)"
  by (simp add: then_catch_def CancelablePromise_then_def CancelablePromise_catch_def
      fate_of_CancelablePromise linked_child_None)

lemma then_catch_fulfilled:
  "fate_of p = Some (Fulfilled v) \<Longrightarrow>
   then_catch pid d h i p None con =
     Inr (CancelablePromise pid Resolved (Fulfilled (TTryCatchPromiseResult Null v p)), con)"
  by (simp add: then_catch_def CancelablePromise_then_def CancelablePromise_catch_def
      fate_of_CancelablePromise settle_child_def fate_of_record linked_child_None)

lemma then_catch_rejected:
  "fate_of p = Some (Rejected reason) \<Longrightarrow> logger h i p reason con = Inr con' \<Longrightarrow>
   then_catch pid d h i p None con =
     Inr (CancelablePromise pid Resolved (Fulfilled (TTryCatchPromiseResult reason d p)), con')"
  by (simp add: then_catch_def CancelablePromise_then_def CancelablePromise_catch_def
      fate_of_CancelablePromise settle_child_def fate_of_record linked_child_None)

lemma then_catch_cancelled:
  assumes "fate_of p = Some ft"
  shows "\<exists>con'. then_catch pid d h i p (Some reason) con =
     Inr (CancelablePromise pid Canceled (Rejected reason), con')"
proof -
  obtain con' where l: "logger h i p reason con = Inr con'"
    using logger_Inr by blast
  show ?thesis
    using assms l
    by (cases ft)
      (simp_all add: then_catch_def CancelablePromise_then_def CancelablePromise_catch_def
        fate_of_CancelablePromise linked_child_Some)
qed

lemma then_catch_returns:
  assumes "fate_of p = Some ft"
  shows "\<exists>child con'. then_catch pid d h i p cl con = Inr (child, con')"
proof (cases cl)
  case (Some reason)
  then show ?thesis using then_catch_cancelled [OF assms] by blast
next
  case None
  show ?thesis
  proof (cases ft)
    case Unsettled
    with assms None show ?thesis by (simp add: then_catch_unsettled)
  next
    case (Fulfilled v)
    with assms None show ?thesis by (simp add: then_catch_fulfilled)
  next
    case (Rejected reason)
    obtain con' where "logger h i p reason con = Inr con'" using logger_Inr by blast
    with assms None Rejected show ?thesis by (simp add: then_catch_rejected)
  qed
qed

lemma tryCatchPromise_unfold:
  "tryCatchPromise pid source config cl con =
     (case try_block pid
             (errorResult_of (case config of None \<Rightarrow> Undefined | Some c \<Rightarrow> defaultResult c))
             (handling_of (case config of None \<Rightarrow> None | Some c \<Rightarrow> exceptionHandlingType c))
             (case (case config of None \<Rightarrow> None | Some c \<Rightarrow> ignoreCancel c) of
               None \<Rightarrow> True | Some b \<Rightarrow> b) source cl con of
        Inr returned \<Rightarrow> Inr returned
      | Inl (thrown, promise) \<Rightarrow>
          (case logger
                  (handling_of (case config of None \<Rightarrow> None | Some c \<Rightarrow> exceptionHandlingType c))
                  (case (case config of None \<Rightarrow> None | Some c \<Rightarrow> ignoreCancel c) of
                     None \<Rightarrow> True | Some b \<Rightarrow> b) promise thrown con of
             Inl thrown' \<Rightarrow> Inl thrown'
           | Inr con' \<Rightarrow>
               Inr (Promise_resolve (TTryCatchPromiseResult thrown
                      (errorResult_of (case config of None \<Rightarrow> Undefined | Some c \<Rightarrow> defaultResult c))
                      promise), con')))"
  by (simp add: tryCatchPromise_def Let_def)

lemma tryCatchPromise_returns:
  "\<exists>returned con'. tryCatchPromise pid source config cl con = Inr (returned, con')"
proof -
  let ?d = "errorResult_of (case config of None \<Rightarrow> Undefined | Some c \<Rightarrow> defaultResult c)"
  let ?h = "handling_of (case config of None \<Rightarrow> None | Some c \<Rightarrow> exceptionHandlingType c)"
  let ?i = "case (case config of None \<Rightarrow> None | Some c \<Rightarrow> ignoreCancel c) of
               None \<Rightarrow> True | Some b \<Rightarrow> b"
  show ?thesis
  proof (cases "try_block pid ?d ?h ?i source cl con")
    case (Inl a)
    obtain thrown promise where a: "a = (thrown, promise)" by (cases a)
    obtain con' where "logger ?h ?i promise thrown con = Inr con'" using logger_Inr by blast
    with Inl a show ?thesis by (simp add: tryCatchPromise_unfold)
  next
    case (Inr b)
    obtain returned con' where "b = (returned, con')" by (cases b)
    with Inr show ?thesis by (simp add: tryCatchPromise_unfold)
  qed
qed

lemma try_block_call_throws:
  "isCancelablePromise pid source = Inr False \<Longrightarrow> call source = Throws thrown \<Longrightarrow>
   try_block pid d h i source cl con = Inl (thrown, Null)"
  by (simp add: try_block_def)

lemma try_block_undefined:
  "isCancelablePromise pid source = Inr False \<Longrightarrow> call source = Returns Undefined \<Longrightarrow>
   try_block pid d h i source cl con =
     Inr (Promise_reject (Error
        ''tryCatchPromise: callback parameter must return a value () => promise''), con)"
  by (simp add: try_block_def)





lemma errorResult_of_nullish: "errorResult_of d = nullish d Null"
  by (simp add: errorResult_of_def nullish_def)

lemma Promise_resolve_record:
  "Promise_resolve (TTryCatchPromiseResult e r p) = NativePromise (Fulfilled (TTryCatchPromiseResult e r p))"
  by (simp add: Promise_resolve_def fate_of_record)

section \<open>\<open>tryCatchPromise\<close>: the usage error\<close>

text \<open>
  C7. A thunk, that is a callable source which the marker test does not take for a
  cancelable future, whose call returns \<open>undefined\<close>: \<open>tryCatchPromise\<close> returns a
  native future rejected with the usage error, not a future resolved with a record, and
  logs nothing, whatever happens after the call.
\<close>

theorem tryCatchPromise_thunk_undefined:
  "isCancelablePromise pid source = Inr False \<Longrightarrow> call source = Returns Undefined \<Longrightarrow>
   tryCatchPromise pid source config cancelled con =
     Inr (NativePromise (Rejected (Error
        ''tryCatchPromise: callback parameter must return a value () => promise'')), con)"
  by (simp add: tryCatchPromise_unfold try_block_undefined Promise_reject_def)

theorem tryCatchPromise_thunk_undefined_witness:
  "tryCatchPromise (Symbol 0 ''promise_identifier'') (JObject [] (Callable (Returns Undefined)))
      None None [] =
     Inr (NativePromise (Rejected (Error
        ''tryCatchPromise: callback parameter must return a value () => promise'')), [])
   \<and> fate_of (NativePromise (Rejected (Error
        ''tryCatchPromise: callback parameter must return a value () => promise''))) =
       Some (Rejected (Error
        ''tryCatchPromise: callback parameter must return a value () => promise''))"
proof -
  have unmarked: "isCancelablePromise (Symbol 0 ''promise_identifier'')
      (JObject [] (Callable (Returns Undefined))) = Inr False"
    by (simp add: isCancelablePromise_object)
  have returns: "call (JObject [] (Callable (Returns Undefined))) = Returns Undefined"
    by simp
  show ?thesis
    using tryCatchPromise_thunk_undefined [OF unmarked returns, of None None "[]"]
    by (simp add: NativePromise_def)
qed

section \<open>\<open>tryCatchPromise\<close>: nothing is thrown to the caller\<close>

text \<open>
  C10. \<open>tryCatchPromise\<close> never throws to its caller: every call returns a future. When
  the source is not taken for a cancelable future and calling it throws (the thunk throws,
  or the source is not callable and the call itself throws a TypeError), the exception is
  caught, logged at the configured severity unless that is \<open>ignore\<close>, and the function
  returns a future already resolved with
  \<open>{error: thrown, result: config.defaultResult ?? null, promise: null}\<close>.
\<close>

theorem tryCatchPromise_never_throws:
  "(\<exists>returned con'. tryCatchPromise pid source config cancelled con = Inr (returned, con'))
   \<and> (isCancelablePromise pid source = Inr False \<and> call source = Throws thrown \<longrightarrow>
        tryCatchPromise pid source config cancelled con =
          Inr (NativePromise (Fulfilled (TTryCatchPromiseResult thrown
                 (nullish (case config of None \<Rightarrow> Undefined | Some c \<Rightarrow> defaultResult c) Null) Null)),
               (let severity = (case config of None \<Rightarrow> HError
                         | Some c \<Rightarrow> (case exceptionHandlingType c of None \<Rightarrow> HError | Some h \<Rightarrow> h))
                in if severity = HIgnore then con else con @ [(severity, thrown)])))
   \<and> ((\<forall>props oc. source \<noteq> JObject props (Callable oc)) \<longrightarrow>
        call source = Throws (TypeError ''is not a function''))"
proof -
  have caught: "isCancelablePromise pid source = Inr False \<and> call source = Throws thrown \<longrightarrow>
        tryCatchPromise pid source config cancelled con =
          Inr (NativePromise (Fulfilled (TTryCatchPromiseResult thrown
                 (nullish (case config of None \<Rightarrow> Undefined | Some c \<Rightarrow> defaultResult c) Null) Null)),
               (let severity = (case config of None \<Rightarrow> HError
                         | Some c \<Rightarrow> (case exceptionHandlingType c of None \<Rightarrow> HError | Some h \<Rightarrow> h))
                in if severity = HIgnore then con else con @ [(severity, thrown)]))"
    by (cases config)
      (auto simp: tryCatchPromise_unfold try_block_call_throws logger_Null Promise_resolve_record
        errorResult_of_nullish handling_of_def Let_def split: option.splits)
  have not_callable: "(\<forall>props oc. source \<noteq> JObject props (Callable oc)) \<longrightarrow>
        call source = Throws (TypeError ''is not a function'')"
    by (cases source rule: call.cases) simp_all
  show ?thesis using tryCatchPromise_returns [of pid source config cancelled con] caught not_callable
    by blast
qed

theorem tryCatchPromise_never_throws_witness:
  "tryCatchPromise (Symbol 0 ''promise_identifier'') (JObject [] (Callable (Throws (JStr ''boom''))))
      (Some \<lparr>defaultResult = JNum 0, exceptionHandlingType = Some HWarn, ignoreCancel = None\<rparr>)
      None [] =
     Inr (NativePromise (Fulfilled (TTryCatchPromiseResult (JStr ''boom'') (JNum 0) Null)),
          [(HWarn, JStr ''boom'')])
   \<and> call (JNum 5) = Throws (TypeError ''is not a function'')"
proof -
  have unmarked: "isCancelablePromise (Symbol 0 ''promise_identifier'')
      (JObject [] (Callable (Throws (JStr ''boom'')))) = Inr False"
    by (simp add: isCancelablePromise_object)
  have throws: "call (JObject [] (Callable (Throws (JStr ''boom'')))) = Throws (JStr ''boom'')"
    by simp
  have not_callable: "\<forall>props oc. JNum 5 \<noteq> JObject props (Callable oc)"
    by simp
  show ?thesis
    using unmarked throws not_callable
      tryCatchPromise_never_throws [of "Symbol 0 ''promise_identifier''"
        "JObject [] (Callable (Throws (JStr ''boom'')))"
        "Some \<lparr>defaultResult = JNum 0, exceptionHandlingType = Some HWarn, ignoreCancel = None\<rparr>"
        None "[]" "JStr ''boom''"]
      tryCatchPromise_never_throws [of "Symbol 0 ''promise_identifier''" "JNum 5" None None "[]" Null]
    by (simp add: nullish_def)
qed

section \<open>\<open>tryCatchPromise\<close>: the record and its future\<close>




section \<open>Settled futures keep their settlement\<close>

lemma resolve_keeps: "settled f hp \<Longrightarrow> same_settlement f hp (resolve g v hp)"
  by (auto simp: settled_def same_settlement_def resolve_def nth_list_update)

lemma reject_keeps: "settled f hp \<Longrightarrow> same_settlement f hp (reject g r hp)"
  by (auto simp: settled_def same_settlement_def reject_def nth_list_update)

lemma onCancel_keeps: "settled f hp \<Longrightarrow> same_settlement f hp (onCancel g cb hp)"
  by (auto simp: settled_def same_settlement_def onCancel_def nth_list_update)

lemma cancel_member_keeps: "settled f hp \<Longrightarrow> same_settlement f hp (cancel_member r m hp)"
  by (auto simp: settled_def same_settlement_def cancel_member_def nth_list_update)

lemma createChildPromise_keeps:
  "settled f hp \<Longrightarrow> same_settlement f hp (snd (createChildPromise p hp))"
  by (auto simp: settled_def same_settlement_def createChildPromise_def nth_append)

lemma same_settlement_settled: "settled f hp \<Longrightarrow> same_settlement f hp hp' \<Longrightarrow> settled f hp'"
  by (simp add: settled_def same_settlement_def)

lemma same_settlement_trans:
  "same_settlement f hp hp' \<Longrightarrow> same_settlement f hp' hp'' \<Longrightarrow> same_settlement f hp hp''"
  by (simp add: same_settlement_def)

lemma same_settlement_refl: "settled f hp \<Longrightarrow> same_settlement f hp hp"
  by (simp add: settled_def same_settlement_def)

lemma fold_keeps:
  assumes each: "\<And>x h. settled f h \<Longrightarrow> same_settlement f h (act x h)"
  shows "settled f hp \<Longrightarrow> same_settlement f hp (fold act xs hp)"
proof (induction xs arbitrary: hp)
  case Nil
  then show ?case by (simp add: same_settlement_refl)
next
  case (Cons x xs)
  have first: "same_settlement f hp (act x hp)" using Cons.prems by (rule each)
  then have "settled f (act x hp)" using Cons.prems same_settlement_settled by blast
  then have "same_settlement f (act x hp) (fold act xs (act x hp))" by (rule Cons.IH)
  with first show ?case using same_settlement_trans by fastforce
qed

lemma cancel_keeps: "settled f hp \<Longrightarrow> same_settlement f hp (cancel g r hp)"
  by (simp add: cancel_def same_settlement_refl fold_keeps cancel_member_keeps)

lemma perform_keeps: "settled f hp \<Longrightarrow> same_settlement f hp (perform g a hp)"
  by (cases a) (simp_all add: resolve_keeps reject_keeps cancel_keeps onCancel_keeps)

lemma append_keeps:
  "settled f hp \<Longrightarrow> same_settlement f hp (hp\<lparr>futures := futures hp @ [x]\<rparr>)"
  by (simp add: settled_def same_settlement_def nth_append)

lemma construct_keeps: "settled f hp \<Longrightarrow> same_settlement f hp (snd (construct callback hp))"
proof -
  assume s: "settled f hp"
  let ?hp0 = "hp\<lparr>futures := futures hp @ [pending_future (length (futures hp))]\<rparr>"
  have a: "same_settlement f hp ?hp0" using s by (rule append_keeps)
  then have "settled f ?hp0" using s same_settlement_settled by blast
  then have "same_settlement f ?hp0 (fold (perform (length (futures hp))) callback ?hp0)"
    by (simp add: fold_keeps perform_keeps)
  with a show ?thesis
    using same_settlement_trans by (fastforce simp: construct_def Let_def)
qed

lemma step_keeps: "settled f hp \<Longrightarrow> same_settlement f hp (step x hp)"
  by (cases x)
    (simp_all add: resolve_keeps reject_keeps cancel_keeps onCancel_keeps construct_keeps
      createChildPromise_keeps)

lemma run_keeps: "settled f hp \<Longrightarrow> same_settlement f hp (fold step ops hp)"
  by (simp add: fold_keeps step_keeps)

lemma cancel_member_length: "length (futures (cancel_member r m hp)) = length (futures hp)"
  by (simp add: cancel_member_def)

lemma cancel_member_nth:
  "k < length (futures hp) \<Longrightarrow>
   futures (cancel_member r m hp) ! k =
     (if k = m
      then (if status (futures hp ! m) = Pending
            then (futures hp ! m)\<lparr>status := Canceled, ownCancelCallbacks := [], awaitable := Rejected r\<rparr>
            else (futures hp ! m)\<lparr>ownCancelCallbacks := []\<rparr>)
      else futures hp ! k)"
  by (simp add: cancel_member_def nth_list_update)

lemma cancel_member_invoked:
  "m < length (futures hp) \<Longrightarrow>
   invoked (cancel_member r m hp) =
     invoked hp @ map (\<lambda>cb. (cb, r)) (ownCancelCallbacks (futures hp ! m))"
  by (simp add: cancel_member_def)

lemma fold_cancel_member:
  "distinct ms \<Longrightarrow> \<forall>m\<in>set ms. m < length (futures hp) \<Longrightarrow>
   length (futures (fold (cancel_member r) ms hp)) = length (futures hp)
   \<and> (\<forall>k<length (futures hp).
         futures (fold (cancel_member r) ms hp) ! k =
           (if k \<in> set ms
            then (if status (futures hp ! k) = Pending
                  then (futures hp ! k)\<lparr>status := Canceled, ownCancelCallbacks := [], awaitable := Rejected r\<rparr>
                  else (futures hp ! k)\<lparr>ownCancelCallbacks := []\<rparr>)
            else futures hp ! k))
   \<and> invoked (fold (cancel_member r) ms hp) =
       invoked hp @ concat (map (\<lambda>m. map (\<lambda>cb. (cb, r)) (ownCancelCallbacks (futures hp ! m))) ms)"
proof (induction ms arbitrary: hp)
  case Nil
  then show ?case by simp
next
  case (Cons a ms)
  let ?hp1 = "cancel_member r a hp"
  have a: "a < length (futures hp)" "a \<notin> set ms" "distinct ms"
    using Cons.prems by simp_all
  have len1: "length (futures ?hp1) = length (futures hp)" by (rule cancel_member_length)
  have range1: "\<forall>m\<in>set ms. m < length (futures ?hp1)"
    using Cons.prems(2) by (simp add: len1)
  note ih = Cons.IH [OF a(3) range1]
  have other: "futures ?hp1 ! m = futures hp ! m" if "m \<in> set ms" for m
  proof -
    have "m \<noteq> a" "m < length (futures hp)" using that a(2) Cons.prems(2) by auto
    then show ?thesis by (simp add: cancel_member_nth)
  qed
  have len: "length (futures (fold (cancel_member r) (a # ms) hp)) = length (futures hp)"
    using ih len1 by simp
  have nth: "futures (fold (cancel_member r) (a # ms) hp) ! k =
           (if k \<in> set (a # ms)
            then (if status (futures hp ! k) = Pending
                  then (futures hp ! k)\<lparr>status := Canceled, ownCancelCallbacks := [], awaitable := Rejected r\<rparr>
                  else (futures hp ! k)\<lparr>ownCancelCallbacks := []\<rparr>)
            else futures hp ! k)" if k: "k < length (futures hp)" for k
  proof (cases "k \<in> set ms")
    case True
    then show ?thesis using ih k len1 other [OF True] by simp
  next
    case False
    then have "futures (fold (cancel_member r) (a # ms) hp) ! k = futures ?hp1 ! k"
      using ih k len1 by simp
    then show ?thesis using False k by (simp add: cancel_member_nth)
  qed
  have mp: "map (\<lambda>m. map (\<lambda>cb. (cb, r)) (ownCancelCallbacks (futures ?hp1 ! m))) ms
      = map (\<lambda>m. map (\<lambda>cb. (cb, r)) (ownCancelCallbacks (futures hp ! m))) ms"
    by (rule map_cong) (simp_all add: other)
  have inv: "invoked (fold (cancel_member r) (a # ms) hp) =
       invoked hp @ concat (map (\<lambda>m. map (\<lambda>cb. (cb, r)) (ownCancelCallbacks (futures hp ! m))) (a # ms))"
    using ih by (simp add: mp cancel_member_invoked [OF a(1)])
  show ?case using len nth inv by blast
qed

lemma members_distinct: "distinct (members c hp)"
  by (simp add: members_def)

lemma members_range: "\<forall>m\<in>set (members c hp). m < length (futures hp)"
  by (simp add: members_def)

lemma members_set:
  "k < length (futures hp) \<Longrightarrow> k \<in> set (members c hp) \<longleftrightarrow> chain_id (futures hp ! k) = c"
  by (simp add: members_def)

lemma cancel_pending:
  "f < length (futures hp) \<Longrightarrow> status (futures hp ! f) = Pending \<Longrightarrow>
   cancel f r hp = fold (cancel_member r) (members (chain_id (futures hp ! f)) hp) hp"
  by (simp add: cancel_def)

lemma cancel_settled: "settled g hp \<Longrightarrow> cancel g r hp = hp"
  by (simp add: cancel_def settled_def)

lemma cancel_nth:
  assumes "f < length (futures hp)" and "status (futures hp ! f) = Pending"
  shows "length (futures (cancel f reason hp)) = length (futures hp)
    \<and> (\<forall>m<length (futures hp).
         futures (cancel f reason hp) ! m =
           (if chain_id (futures hp ! m) = chain_id (futures hp ! f)
            then (if status (futures hp ! m) = Pending
                  then (futures hp ! m)\<lparr>status := Canceled, ownCancelCallbacks := [],
                                         awaitable := Rejected reason\<rparr>
                  else (futures hp ! m)\<lparr>ownCancelCallbacks := []\<rparr>)
            else futures hp ! m))"
proof -
  let ?c = "chain_id (futures hp ! f)"
  note fc = fold_cancel_member [OF members_distinct [of ?c hp] members_range [of ?c hp], of reason]
  have eq: "cancel f reason hp = fold (cancel_member reason) (members ?c hp) hp"
    using assms by (rule cancel_pending)
  show ?thesis using fc eq by (simp add: members_set)
qed

lemma cancel_invoked:
  assumes "f < length (futures hp)" and "status (futures hp ! f) = Pending"
  shows "invoked (cancel f reason hp) =
        invoked hp @ concat (map (\<lambda>m. map (\<lambda>cb. (cb, reason)) (ownCancelCallbacks (futures hp ! m)))
          (members (chain_id (futures hp ! f)) hp))"
proof -
  let ?c = "chain_id (futures hp ! f)"
  note fc = fold_cancel_member [OF members_distinct [of ?c hp] members_range [of ?c hp], of reason]
  have eq: "cancel f reason hp = fold (cancel_member reason) (members ?c hp) hp"
    using assms by (rule cancel_pending)
  show ?thesis using fc eq by simp
qed

lemma cancel_self:
  assumes "f < length (futures hp)" and "status (futures hp ! f) = Pending"
  shows "f < length (futures (cancel f reason hp))
    \<and> status (futures (cancel f reason hp) ! f) = Canceled
    \<and> awaitable (futures (cancel f reason hp) ! f) = Rejected reason"
  using cancel_nth [OF assms, of reason] assms by simp

text \<open>
  After \<open>cancel\<close> on a pending member, no member of the chain has a callback left, and
  every member keeps its chain.
\<close>

lemma cancel_clears:
  assumes "f < length (futures hp)" and "status (futures hp ! f) = Pending"
    and "m < length (futures hp)"
  shows "chain_id (futures (cancel f reason hp) ! m) = chain_id (futures hp ! m)
    \<and> (chain_id (futures hp ! m) = chain_id (futures hp ! f) \<longrightarrow>
          ownCancelCallbacks (futures (cancel f reason hp) ! m) = []
          \<and> status (futures (cancel f reason hp) ! m) \<noteq> Pending)"
  using cancel_nth [OF assms(1,2), of reason] assms(3) by simp

text \<open>
  A child derived after the cancellation is pending; cancelling it invokes none of the
  callbacks again: they were cleared when they were invoked.
\<close>

lemma cancel_later_child:
  assumes f: "f < length (futures hp)" "status (futures hp ! f) = Pending"
    and g: "g < length (futures hp)" "chain_id (futures hp ! g) = chain_id (futures hp ! f)"
  shows "invoked (cancel (fst (createChildPromise g (cancel f reason hp))) reason'
                    (snd (createChildPromise g (cancel f reason hp))))
         = invoked (cancel f reason hp)"
proof -
  let ?c = "chain_id (futures hp ! f)"
  let ?hp1 = "cancel f reason hp"
  let ?n = "length (futures ?hp1)"
  let ?hp2 = "?hp1\<lparr>futures := futures ?hp1 @ [pending_future ?c]\<rparr>"
  have len: "?n = length (futures hp)"
    using cancel_nth [OF f, of reason] by simp
  have chain_g: "chain_id (futures ?hp1 ! g) = ?c"
    using cancel_clears [OF f g(1), of reason] g(2) by simp
  have child: "createChildPromise g ?hp1 = (?n, ?hp2)"
    using g(1) len chain_g by (simp add: createChildPromise_def)
  have pending: "?n < length (futures ?hp2)" "status (futures ?hp2 ! ?n) = Pending"
    "chain_id (futures ?hp2 ! ?n) = ?c"
    by (simp_all add: pending_future_def)
  have empty: "ownCancelCallbacks (futures ?hp2 ! m) = []" if "m \<in> set (members ?c ?hp2)" for m
  proof (cases "m < ?n")
    case True
    then have same: "futures ?hp2 ! m = futures ?hp1 ! m"
      by (simp add: nth_append)
    have "m < length (futures ?hp2)"
      using that members_range by blast
    then have "chain_id (futures ?hp2 ! m) = ?c"
      using that members_set by blast
    then have "chain_id (futures hp ! m) = ?c"
      using same cancel_clears [OF f, of m reason] True len by simp
    then show ?thesis
      using same cancel_clears [OF f, of m reason] True len by simp
  next
    case False
    moreover have "m < length (futures ?hp2)"
      using that members_range by blast
    ultimately have "m = ?n" by simp
    then show ?thesis by (simp add: pending_future_def)
  qed
  have none: "concat (map (\<lambda>m. map (\<lambda>cb. (cb, reason')) (ownCancelCallbacks (futures ?hp2 ! m)))
      (members ?c ?hp2)) = []"
    using empty by simp
  have "invoked (cancel ?n reason' ?hp2) = invoked ?hp2 @
      concat (map (\<lambda>m. map (\<lambda>cb. (cb, reason')) (ownCancelCallbacks (futures ?hp2 ! m)))
        (members (chain_id (futures ?hp2 ! ?n)) ?hp2))"
    using pending(1,2) by (rule cancel_invoked)
  then have "invoked (cancel ?n reason' ?hp2) = invoked ?hp1"
    using none pending(3) by simp
  then show ?thesis by (simp add: child)
qed

lemma fold_onCancel_pending:
  "\<forall>a\<in>set pre. \<exists>cb. a = DoOnCancel cb \<Longrightarrow>
   f < length (futures h) \<Longrightarrow> status (futures h ! f) = Pending \<Longrightarrow>
   f < length (futures (fold (perform f) pre h))
   \<and> status (futures (fold (perform f) pre h) ! f) = Pending"
proof (induction pre arbitrary: h)
  case Nil
  then show ?case by simp
next
  case (Cons a pre)
  obtain cb where a: "a = DoOnCancel cb" using Cons.prems(1) by auto
  have "f < length (futures (onCancel f cb h))" "status (futures (onCancel f cb h) ! f) = Pending"
    using Cons.prems(2,3) by (simp_all add: onCancel_def)
  then show ?case using Cons.IH [of "onCancel f cb h"] Cons.prems(1) a by simp
qed

lemma construct_cancel:
  assumes pre: "\<forall>a\<in>set pre. \<exists>cb. a = DoOnCancel cb"
    and c: "construct (pre @ DoCancel reason # rest) hp0 = (f, hp)"
  shows "settled f hp \<and> status (futures hp ! f) = Canceled \<and> awaitable (futures hp ! f) = Rejected reason"
proof -
  let ?A = "hp0\<lparr>futures := futures hp0 @ [pending_future (length (futures hp0))]\<rparr>"
  let ?B = "fold (perform f) pre ?A"
  let ?C = "cancel f reason ?B"
  have f: "f = length (futures hp0)" and hp: "hp = fold (perform f) rest ?C"
    using c by (auto simp: construct_def Let_def)
  have "f < length (futures ?A)" "status (futures ?A ! f) = Pending"
    by (simp_all add: f pending_future_def)
  then have "f < length (futures ?B) \<and> status (futures ?B ! f) = Pending"
    using pre by (simp add: fold_onCancel_pending)
  then have C: "f < length (futures ?C) \<and> status (futures ?C ! f) = Canceled
      \<and> awaitable (futures ?C ! f) = Rejected reason"
    by (simp add: cancel_self)
  then have "settled f ?C" by (simp add: settled_def)
  then have "same_settlement f ?C hp" unfolding hp by (simp add: fold_keeps perform_keeps)
  then show ?thesis using C by (simp add: same_settlement_def settled_def)
qed

lemma catch_rejected:
  "CancelablePromise_catch pid (CancelablePromise pid st (Rejected reason)) onrejected None con =
     (case onrejected reason con of (oc, con') \<Rightarrow> Inr (settle_child pid oc, con'))"
  by (simp add: CancelablePromise_catch_def CancelablePromise_then_def fate_of_CancelablePromise
      linked_child_None)

lemma catch_rejected_called:
  "\<exists>child. CancelablePromise_catch pid (CancelablePromise pid st (Rejected reason)) onrejected
      cancelled con = Inr (child, snd (onrejected reason con))"
  by (cases "onrejected reason con")
    (simp add: CancelablePromise_catch_def CancelablePromise_then_def fate_of_CancelablePromise)

lemma status_read:
  "optional_get (CancelablePromise pid st ft) (KStr ''status'') = Inr (status_string st)"
  by (simp add: optional_get_def CancelablePromise_def)

text \<open>
  The two descriptions of a derivation agree. In the heap, a pending future and the child
  derived from it are both canceled, with the reason, when the future is cancelled after
  the derivation; \<open>then\<close> on that future, told of the cancellation, gives that child.
\<close>

lemma then_child_follows_chain:
  assumes "p < length (futures hp)" and "status (futures hp ! p) = Pending"
  shows "\<exists>con'. CancelablePromise_then pid
            (future_value pid (cancel p reason (snd (createChildPromise p hp))) p)
            onfulfilled onrejected (Some reason) con =
          Inr (future_value pid (cancel p reason (snd (createChildPromise p hp)))
                 (fst (createChildPromise p hp)), con')"
proof -
  let ?hp1 = "hp\<lparr>futures := futures hp @ [pending_future (chain_id (futures hp ! p))]\<rparr>"
  let ?c = "length (futures hp)"
  have child: "createChildPromise p hp = (?c, ?hp1)"
    using assms(1) by (simp add: createChildPromise_def)
  have p1: "p < length (futures ?hp1)" "status (futures ?hp1 ! p) = Pending"
    using assms by (simp_all add: nth_append)
  have c1: "?c < length (futures ?hp1)" "status (futures ?hp1 ! ?c) = Pending"
    "chain_id (futures ?hp1 ! ?c) = chain_id (futures ?hp1 ! p)"
    using assms(1) by (simp_all add: nth_append pending_future_def)
  note after = cancel_nth [OF p1, of reason]
  have parent: "future_value pid (cancel p reason ?hp1) p = CancelablePromise pid Canceled (Rejected reason)"
    using after p1 by (simp add: future_value_def)
  have derived: "future_value pid (cancel p reason ?hp1) ?c = CancelablePromise pid Canceled (Rejected reason)"
    using after c1 by (simp add: future_value_def)
  have "\<exists>con'. CancelablePromise_then pid (CancelablePromise pid Canceled (Rejected reason))
            onfulfilled onrejected (Some reason) con =
          Inr (CancelablePromise pid Canceled (Rejected reason), con')"
  proof (cases onrejected)
    case None
    then show ?thesis
      by (simp add: CancelablePromise_then_def fate_of_CancelablePromise linked_child_Some)
  next
    case (Some h)
    then show ?thesis
      by (cases "h reason con")
        (simp add: CancelablePromise_then_def fate_of_CancelablePromise linked_child_Some)
  qed
  then show ?thesis by (simp add: child parent derived)
qed

section \<open>Cancelling a chain\<close>

text \<open>
  C1, as stated, fails on a chain with a member that has already settled: a future that
  resolved and then got a child by \<open>then\<close> keeps its status \<open>resolved\<close> when the pending
  child is cancelled, although both are members of the same chain.
\<close>

theorem cancel_settled_parent_counterexample:
  "status (futures (cancel 1 (JStr ''stop'')
       (snd (createChildPromise 0 (snd (construct [DoResolve (JStr ''done'')] empty_heap))))) ! 0)
     = Resolved
   \<and> status (futures (cancel 1 (JStr ''stop'')
       (snd (createChildPromise 0 (snd (construct [DoResolve (JStr ''done'')] empty_heap))))) ! 1)
     = Canceled
   \<and> chain_id (futures (cancel 1 (JStr ''stop'')
       (snd (createChildPromise 0 (snd (construct [DoResolve (JStr ''done'')] empty_heap))))) ! 0)
     = chain_id (futures (cancel 1 (JStr ''stop'')
       (snd (createChildPromise 0 (snd (construct [DoResolve (JStr ''done'')] empty_heap))))) ! 1)"
  by (simp add: cancel_def createChildPromise_def construct_def empty_heap_def resolve_def
       pending_future_def members_def cancel_member_def)

text \<open>
  C1, amended. Calling \<open>cancel(reason)\<close> on a pending member \<open>f\<close> of a chain sets the
  status of every member of the chain that is still pending to \<open>canceled\<close> and rejects its
  awaitable with the reason; a member that had settled keeps its status. The registered
  cancel callbacks of every member of the chain, settled or not, are invoked once each,
  with that reason, in the order of the members and of the registrations, and are cleared.
  The futures of other chains are left as they are. A second \<open>cancel\<close> on a member that
  was in the chain changes nothing, and cancelling a child derived after the cancellation
  invokes none of the callbacks again. A child made by \<open>then\<close>, \<open>catch\<close> or \<open>finally\<close> is
  in the chain of its parent, so the propagation reaches parents as well as children.
\<close>

theorem cancel_chain:
  assumes "f < length (futures hp)" and "status (futures hp ! f) = Pending"
  shows "length (futures (cancel f reason hp)) = length (futures hp)
    \<and> (\<forall>m<length (futures hp).
         futures (cancel f reason hp) ! m =
           (if chain_id (futures hp ! m) = chain_id (futures hp ! f)
            then (if status (futures hp ! m) = Pending
                  then (futures hp ! m)\<lparr>status := Canceled, ownCancelCallbacks := [],
                                         awaitable := Rejected reason\<rparr>
                  else (futures hp ! m)\<lparr>ownCancelCallbacks := []\<rparr>)
            else futures hp ! m))
    \<and> invoked (cancel f reason hp) =
        invoked hp @ concat (map (\<lambda>m. map (\<lambda>cb. (cb, reason)) (ownCancelCallbacks (futures hp ! m)))
          (members (chain_id (futures hp ! f)) hp))
    \<and> (\<forall>g reason'. g < length (futures hp) \<and> chain_id (futures hp ! g) = chain_id (futures hp ! f)
          \<longrightarrow> cancel g reason' (cancel f reason hp) = cancel f reason hp
              \<and> invoked (cancel (fst (createChildPromise g (cancel f reason hp))) reason'
                           (snd (createChildPromise g (cancel f reason hp))))
                  = invoked (cancel f reason hp))
    \<and> (\<forall>p<length (futures hp).
          chain_id (futures (snd (createChildPromise p hp)) ! fst (createChildPromise p hp))
            = chain_id (futures hp ! p))"
proof -
  let ?c = "chain_id (futures hp ! f)"
  note fc = fold_cancel_member [OF members_distinct [of ?c hp] members_range [of ?c hp], of reason]
  have eq: "cancel f reason hp = fold (cancel_member reason) (members ?c hp) hp"
    using assms by (rule cancel_pending)
  have len: "length (futures (cancel f reason hp)) = length (futures hp)"
    using fc eq by simp
  have nth: "\<forall>m<length (futures hp).
         futures (cancel f reason hp) ! m =
           (if chain_id (futures hp ! m) = ?c
            then (if status (futures hp ! m) = Pending
                  then (futures hp ! m)\<lparr>status := Canceled, ownCancelCallbacks := [],
                                         awaitable := Rejected reason\<rparr>
                  else (futures hp ! m)\<lparr>ownCancelCallbacks := []\<rparr>)
            else futures hp ! m)"
    using fc eq by (simp add: members_set)
  have inv: "invoked (cancel f reason hp) =
        invoked hp @ concat (map (\<lambda>m. map (\<lambda>cb. (cb, reason)) (ownCancelCallbacks (futures hp ! m)))
          (members ?c hp))"
    using fc eq by simp
  have again: "cancel g reason' (cancel f reason hp) = cancel f reason hp"
    if "g < length (futures hp)" "chain_id (futures hp ! g) = ?c" for g reason'
  proof -
    have "status (futures (cancel f reason hp) ! g) \<noteq> Pending"
      using nth that by simp
    then show ?thesis using that(1) len by (simp add: cancel_settled settled_def)
  qed
  have later: "invoked (cancel (fst (createChildPromise g (cancel f reason hp))) reason'
                           (snd (createChildPromise g (cancel f reason hp))))
                  = invoked (cancel f reason hp)"
    if "g < length (futures hp)" "chain_id (futures hp ! g) = ?c" for g reason'
    using assms that by (rule cancel_later_child)
  have child: "\<forall>p<length (futures hp).
          chain_id (futures (snd (createChildPromise p hp)) ! fst (createChildPromise p hp))
            = chain_id (futures hp ! p)"
    by (simp add: createChildPromise_def pending_future_def)
  show ?thesis using len nth inv again later child by blast
qed

theorem cancel_chain_witness:
  "status (futures (cancel 1 (JStr ''stop'')
       \<lparr>futures = [\<lparr>status = Resolved, ownCancelCallbacks = [7], chain_id = 0,
                      awaitable = Fulfilled (JStr ''done'')\<rparr>,
                   \<lparr>status = Pending, ownCancelCallbacks = [8], chain_id = 0, awaitable = Unsettled\<rparr>],
        invoked = []\<rparr>) ! 1) = Canceled
   \<and> status (futures (cancel 1 (JStr ''stop'')
       \<lparr>futures = [\<lparr>status = Resolved, ownCancelCallbacks = [7], chain_id = 0,
                      awaitable = Fulfilled (JStr ''done'')\<rparr>,
                   \<lparr>status = Pending, ownCancelCallbacks = [8], chain_id = 0, awaitable = Unsettled\<rparr>],
        invoked = []\<rparr>) ! 0) = Resolved
   \<and> invoked (cancel 1 (JStr ''stop'')
       \<lparr>futures = [\<lparr>status = Resolved, ownCancelCallbacks = [7], chain_id = 0,
                      awaitable = Fulfilled (JStr ''done'')\<rparr>,
                   \<lparr>status = Pending, ownCancelCallbacks = [8], chain_id = 0, awaitable = Unsettled\<rparr>],
        invoked = []\<rparr>) = [(7, JStr ''stop''), (8, JStr ''stop'')]
   \<and> onCancel 1 8 (snd (createChildPromise 0
        (snd (construct [DoOnCancel 7, DoResolve (JStr ''done'')] empty_heap)))) =
       \<lparr>futures = [\<lparr>status = Resolved, ownCancelCallbacks = [7], chain_id = 0,
                      awaitable = Fulfilled (JStr ''done'')\<rparr>,
                   \<lparr>status = Pending, ownCancelCallbacks = [8], chain_id = 0, awaitable = Unsettled\<rparr>],
        invoked = []\<rparr>"
proof -
  let ?hp = "\<lparr>futures = [\<lparr>status = Resolved, ownCancelCallbacks = [7], chain_id = 0,
                      awaitable = Fulfilled (JStr ''done'')\<rparr>,
                   \<lparr>status = Pending, ownCancelCallbacks = [8], chain_id = 0, awaitable = Unsettled\<rparr>],
        invoked = []\<rparr>"
  have valid: "1 < length (futures ?hp)" "status (futures ?hp ! 1) = Pending"
    by simp_all
  note chain = cancel_chain [OF valid, of "JStr ''stop''"]
  have members: "members 0 ?hp = [0, 1]"
    by (simp add: members_def upt_rec)
  have child: "status (futures (cancel 1 (JStr ''stop'') ?hp) ! 1) = Canceled"
    using chain by simp
  have parent: "status (futures (cancel 1 (JStr ''stop'') ?hp) ! 0) = Resolved"
    using chain by simp
  have calls: "invoked (cancel 1 (JStr ''stop'') ?hp) = [(7, JStr ''stop''), (8, JStr ''stop'')]"
    using chain by (simp add: members)
  have built: "onCancel 1 8 (snd (createChildPromise 0
        (snd (construct [DoOnCancel 7, DoResolve (JStr ''done'')] empty_heap)))) = ?hp"
    by (simp add: onCancel_def createChildPromise_def construct_def empty_heap_def pending_future_def
        resolve_def)
  show ?thesis using child parent calls built by simp
qed

section \<open>A canceled future rejects with the reason and reads \<open>canceled\<close>\<close>

text \<open>
  C3. A pending future canceled with a reason, by a call of \<open>cancel\<close> or by a call of
  \<open>cancel\<close> that its constructor callback makes before settling it, has from then on,
  whatever is called later, the status \<open>canceled\<close> (never \<open>rejected\<close>) and an awaitable
  rejected with the reason: a handler attached with \<open>catch\<close> is called with the reason,
  and the child of that \<open>catch\<close> settles with what the handler returns unless the child is
  cancelled before.
\<close>

theorem cancel_rejects_with_reason:
  assumes "f < length (futures hp0) \<and> status (futures hp0 ! f) = Pending \<and> hp = cancel f reason hp0
     \<or> (\<forall>a\<in>set pre. \<exists>cb. a = DoOnCancel cb) \<and> construct (pre @ DoCancel reason # rest) hp0 = (f, hp)"
  shows "status (futures (fold step ops hp) ! f) = Canceled
     \<and> status (futures (fold step ops hp) ! f) \<noteq> Rejected_status
     \<and> awaitable (futures (fold step ops hp) ! f) = Rejected reason
     \<and> optional_get (future_value pid (fold step ops hp) f) (KStr ''status'') = Inr (JStr ''canceled'')
     \<and> CancelablePromise_catch pid (future_value pid (fold step ops hp) f) onrejected None con =
         (case onrejected reason con of (oc, con') \<Rightarrow> Inr (settle_child pid oc, con'))
     \<and> (\<exists>child. CancelablePromise_catch pid (future_value pid (fold step ops hp) f) onrejected
           cancelled con = Inr (child, snd (onrejected reason con)))"
proof -
  have now: "settled f hp \<and> status (futures hp ! f) = Canceled \<and> awaitable (futures hp ! f) = Rejected reason"
    using assms
  proof
    assume "f < length (futures hp0) \<and> status (futures hp0 ! f) = Pending \<and> hp = cancel f reason hp0"
    then show ?thesis using cancel_self [of f hp0 reason] by (simp add: settled_def)
  next
    assume "(\<forall>a\<in>set pre. \<exists>cb. a = DoOnCancel cb) \<and> construct (pre @ DoCancel reason # rest) hp0 = (f, hp)"
    then show ?thesis using construct_cancel by blast
  qed
  then have "same_settlement f hp (fold step ops hp)" by (simp add: run_keeps)
  then have later: "status (futures (fold step ops hp) ! f) = Canceled"
    "awaitable (futures (fold step ops hp) ! f) = Rejected reason"
    using now by (simp_all add: same_settlement_def)
  show ?thesis
    using catch_rejected_called [of pid Canceled reason onrejected cancelled con]
    by (simp add: later future_value_def catch_rejected status_read)
qed

theorem cancel_rejects_with_reason_witness:
  "construct [DoCancel (JStr ''user-abort'')] empty_heap =
     (0, \<lparr>futures = [\<lparr>status = Canceled, ownCancelCallbacks = [], chain_id = 0,
                        awaitable = Rejected (JStr ''user-abort'')\<rparr>], invoked = []\<rparr>)
   \<and> optional_get (future_value (Symbol 0 ''promise_identifier'')
         (snd (construct [DoCancel (JStr ''user-abort'')] empty_heap)) 0) (KStr ''status'')
       = Inr (JStr ''canceled'')
   \<and> CancelablePromise_catch (Symbol 0 ''promise_identifier'')
         (future_value (Symbol 0 ''promise_identifier'')
            (snd (construct [DoCancel (JStr ''user-abort'')] empty_heap)) 0)
         (\<lambda>e c. (Returns e, c)) None []
       = Inr (CancelablePromise (Symbol 0 ''promise_identifier'') Resolved
                (Fulfilled (JStr ''user-abort'')), [])"
proof -
  let ?hp = "\<lparr>futures = [\<lparr>status = Canceled, ownCancelCallbacks = [], chain_id = 0,
                        awaitable = Rejected (JStr ''user-abort'')\<rparr>], invoked = []\<rparr>"
  have built: "construct [DoCancel (JStr ''user-abort'')] empty_heap = (0, ?hp)"
    by (simp add: construct_def empty_heap_def pending_future_def cancel_def members_def
        cancel_member_def)
  have pre: "\<forall>a\<in>set []. \<exists>cb. a = DoOnCancel cb"
    by simp
  have "construct ([] @ DoCancel (JStr ''user-abort'') # []) empty_heap = (0, ?hp)"
    using built by simp
  with pre have hyp: "0 < length (futures hp0) \<and> status (futures hp0 ! 0) = Pending
        \<and> ?hp = cancel 0 (JStr ''user-abort'') hp0
      \<or> (\<forall>a\<in>set []. \<exists>cb. a = DoOnCancel cb)
        \<and> construct ([] @ DoCancel (JStr ''user-abort'') # []) empty_heap = (0, ?hp)" for hp0
    by blast
  note used = cancel_rejects_with_reason [OF hyp, of "[]" "Symbol 0 ''promise_identifier''"
      "\<lambda>e c. (Returns e, c)" "[]" None]
  have settled_child: "settle_child (Symbol 0 ''promise_identifier'') (Returns (JStr ''user-abort''))
      = CancelablePromise (Symbol 0 ''promise_identifier'') Resolved (Fulfilled (JStr ''user-abort''))"
    by (simp add: settle_child_def)
  show ?thesis using used built by (simp add: settled_child)
qed

section \<open>The status changes once\<close>

text \<open>
  C2. A future starts \<open>pending\<close>, whether built by the constructor or derived by \<open>then\<close>,
  \<open>catch\<close> or \<open>finally\<close>. The first \<open>resolve\<close>, \<open>reject\<close> or \<open>cancel\<close> on a pending
  future takes it to \<open>resolved\<close>, \<open>rejected\<close> or \<open>canceled\<close> respectively. Once the
  status has left \<open>pending\<close>, a call of \<open>resolve\<close>, \<open>reject\<close> or \<open>cancel\<close> on the future
  leaves it as it is, and so does every sequence of calls on the futures of the heap.
\<close>

theorem status_monotonic:
  "status (futures (snd (construct [] hp)) ! fst (construct [] hp)) = Pending
   \<and> (p < length (futures hp) \<longrightarrow>
        status (futures (snd (createChildPromise p hp)) ! fst (createChildPromise p hp)) = Pending)
   \<and> (f < length (futures hp) \<and> status (futures hp ! f) = Pending \<longrightarrow>
        status (futures (resolve f v hp) ! f) = Resolved
        \<and> status (futures (reject f reason hp) ! f) = Rejected_status
        \<and> status (futures (cancel f reason hp) ! f) = Canceled)
   \<and> (f < length (futures hp) \<and> status (futures hp ! f) \<noteq> Pending \<longrightarrow>
        status (futures (resolve f v hp) ! f) = status (futures hp ! f)
        \<and> status (futures (reject f reason hp) ! f) = status (futures hp ! f)
        \<and> status (futures (cancel f reason hp) ! f) = status (futures hp ! f)
        \<and> f < length (futures (fold step ops hp))
        \<and> status (futures (fold step ops hp) ! f) = status (futures hp ! f))"
proof -
  have fresh: "status (futures (snd (construct [] hp)) ! fst (construct [] hp)) = Pending"
    by (simp add: construct_def Let_def pending_future_def)
  have child: "p < length (futures hp) \<longrightarrow>
        status (futures (snd (createChildPromise p hp)) ! fst (createChildPromise p hp)) = Pending"
    by (simp add: createChildPromise_def pending_future_def)
  have leave: "f < length (futures hp) \<and> status (futures hp ! f) = Pending \<longrightarrow>
        status (futures (resolve f v hp) ! f) = Resolved
        \<and> status (futures (reject f reason hp) ! f) = Rejected_status
        \<and> status (futures (cancel f reason hp) ! f) = Canceled"
    using cancel_self [of f hp reason] by (simp add: resolve_def reject_def)
  have stay: "status (futures (resolve f v hp) ! f) = status (futures hp ! f)
        \<and> status (futures (reject f reason hp) ! f) = status (futures hp ! f)
        \<and> status (futures (cancel f reason hp) ! f) = status (futures hp ! f)
        \<and> f < length (futures (fold step ops hp))
        \<and> status (futures (fold step ops hp) ! f) = status (futures hp ! f)"
    if "f < length (futures hp) \<and> status (futures hp ! f) \<noteq> Pending"
  proof -
    have s: "settled f hp" using that by (simp add: settled_def)
    show ?thesis
      using resolve_keeps [OF s, of f v] reject_keeps [OF s, of f reason]
        cancel_keeps [OF s, of f reason] run_keeps [OF s, of ops]
      by (simp add: same_settlement_def)
  qed
  show ?thesis using fresh child leave stay by blast
qed

theorem status_monotonic_witness:
  "status (futures (snd (construct [DoResolve (JStr ''done'')] empty_heap)) ! 0) = Resolved
   \<and> status (futures (fold step
         [Cancel 0 (JStr ''stop''), Reject 0 (JStr ''no''), Resolve 0 (JStr ''again''), Derive 0,
          Cancel 1 (JStr ''stop'')]
         (snd (construct [DoResolve (JStr ''done'')] empty_heap))) ! 0) = Resolved"
proof -
  let ?hp = "snd (construct [DoResolve (JStr ''done'')] empty_heap)"
  have built: "?hp = \<lparr>futures = [\<lparr>status = Resolved, ownCancelCallbacks = [], chain_id = 0,
                        awaitable = Fulfilled (JStr ''done'')\<rparr>], invoked = []\<rparr>"
    by (simp add: construct_def empty_heap_def pending_future_def resolve_def)
  have hyp: "0 < length (futures ?hp) \<and> status (futures ?hp ! 0) \<noteq> Pending"
    by (simp add: built)
  have now: "status (futures ?hp ! 0) = Resolved"
    by (simp add: built)
  show ?thesis
    using hyp now
      status_monotonic [of ?hp 0 0 Null Null
        "[Cancel 0 (JStr ''stop''), Reject 0 (JStr ''no''), Resolve 0 (JStr ''again''), Derive 0,
          Cancel 1 (JStr ''stop'')]"]
    by metis
qed

section \<open>The results of a group are positional\<close>

lemma dispatch_inv:
  "group_inv pid sources g \<Longrightarrow> n = length sources \<Longrightarrow> group_inv pid sources (dispatch limit n g)"
proof (induction limit n g rule: dispatch.induct)
  case (1 limit n g)
  show ?case
  proof (cases "length (active g) < limit \<and> cursor g < n")
    case True
    let ?g = "g\<lparr>cursor := Suc (cursor g), active := active g @ [cursor g],
                events := events g @ [BeforeEach]\<rparr>"
    have "group_inv pid sources ?g"
      using "1.prems" True by (auto simp: group_inv_def less_Suc_eq)
    then have "group_inv pid sources (dispatch limit n ?g)"
      using "1.IH" [OF True] "1.prems"(2) by simp
    moreover have "dispatch limit n g = dispatch limit n ?g"
      using True by (subst dispatch.simps) simp
    ultimately show ?thesis by simp
  next
    case False
    then have "dispatch limit n g = g"
      by (subst dispatch.simps) auto
    then show ?thesis using "1.prems"(1) by simp
  qed
qed

lemma announce_inv: "group_inv pid sources g \<Longrightarrow> group_inv pid sources (announce n g)"
  by (simp add: announce_def group_inv_def)

lemma settle_inv:
  assumes inv: "group_inv pid sources g"
    and k: "k < length (active g)"
    and ft: "member_fate pid (sources ! (active g ! k)) \<noteq> Unsettled"
  shows "group_inv pid sources
           (g\<lparr>active := take k (active g) @ drop (Suc k) (active g),
              results := (results g)[active g ! k := Some (member_fate pid (sources ! (active g ! k)))],
              events := events g @ [AfterEach (member_fate pid (sources ! (active g ! k)))]\<rparr>)"
proof -
  let ?i = "active g ! k"
  let ?rest = "take k (active g) @ drop (Suc k) (active g)"
  let ?res = "(results g)[?i := Some (member_fate pid (sources ! ?i))]"
  have len: "length (results g) = length sources" and cur: "cursor g \<le> length sources"
    and act: "\<forall>i\<in>set (active g). i < cursor g"
    and slots: "\<forall>i<length sources. results g ! i = None
            \<or> (results g ! i = Some (member_fate pid (sources ! i))
                \<and> member_fate pid (sources ! i) \<noteq> Unsettled)"
    and started: "\<forall>i<cursor g. i \<notin> set (active g) \<longrightarrow> results g ! i \<noteq> None"
    using inv by (simp_all add: group_inv_def)
  have i: "?i < cursor g" using act k by simp
  have sub: "set ?rest \<subseteq> set (active g)"
    using set_take_subset [of k "active g"] set_drop_subset [of "Suc k" "active g"] by auto
  have eq: "take k (active g) @ ?i # drop (Suc k) (active g) = active g"
    using k by (simp add: id_take_nth_drop [symmetric])
  have "set (take k (active g) @ ?i # drop (Suc k) (active g)) = insert ?i (set ?rest)"
    by simp
  then have parts: "set (active g) = insert ?i (set ?rest)"
    by (simp only: eq)
  have c3: "\<forall>j\<in>set ?rest. j < cursor g"
    using sub act by blast
  have c4: "\<forall>j<length sources. ?res ! j = None
            \<or> (?res ! j = Some (member_fate pid (sources ! j))
                \<and> member_fate pid (sources ! j) \<noteq> Unsettled)"
  proof (intro allI impI)
    fix j assume j: "j < length sources"
    show "?res ! j = None \<or> (?res ! j = Some (member_fate pid (sources ! j))
                \<and> member_fate pid (sources ! j) \<noteq> Unsettled)"
    proof (cases "j = ?i")
      case True
      then show ?thesis using j len ft by simp
    next
      case False
      then show ?thesis using j slots by simp
    qed
  qed
  have c5: "\<forall>j<cursor g. j \<notin> set ?rest \<longrightarrow> ?res ! j \<noteq> None"
  proof (intro allI impI)
    fix j assume j: "j < cursor g" "j \<notin> set ?rest"
    show "?res ! j \<noteq> None"
    proof (cases "j = ?i")
      case True
      then show ?thesis using j(1) cur len by simp
    next
      case False
      then have "j \<notin> set (active g)" using j(2) parts by simp
      then show ?thesis using False j(1) started by simp
    qed
  qed
  show ?thesis
    unfolding group_inv_def using len cur c3 c4 c5 by simp
qed

lemma member_settles_inv:
  "group_inv pid sources g \<Longrightarrow> group_inv pid sources (member_settles pid sources limit k g)"
  by (simp add: member_settles_def Let_def announce_inv dispatch_inv settle_inv)

lemma initial_inv:
  "group_inv pid sources
     \<lparr>cursor = 0, active = [], results = replicate (length sources) None, events = []\<rparr>"
  by (simp add: group_inv_def)

lemma fold_member_settles_inv:
  "group_inv pid sources g \<Longrightarrow>
   group_inv pid sources (fold (member_settles pid sources limit) schedule g)"
  by (induction schedule arbitrary: g) (simp_all add: member_settles_inv)

lemma run_group_inv: "group_inv pid sources (run_group pid sources config schedule)"
  by (simp add: run_group_def fold_member_settles_inv announce_inv dispatch_inv initial_inv)

lemma queue_empty_results:
  assumes "group_inv pid sources g" and "queue_empty (length sources) g"
  shows "length (results g) = length sources
    \<and> (\<forall>i<length sources. results g ! i = Some (member_fate pid (sources ! i))
          \<and> member_fate pid (sources ! i) \<noteq> Unsettled)"
proof -
  have len: "length (results g) = length sources"
    and slots: "\<forall>i<length sources. results g ! i = None
            \<or> (results g ! i = Some (member_fate pid (sources ! i))
                \<and> member_fate pid (sources ! i) \<noteq> Unsettled)"
    and started: "\<forall>i<cursor g. i \<notin> set (active g) \<longrightarrow> results g ! i \<noteq> None"
    using assms(1) by (simp_all add: group_inv_def)
  have "cursor g = length sources" "active g = []"
    using assms(2) by (simp_all add: queue_empty_def)
  then have "\<forall>i<length sources. results g ! i \<noteq> None"
    using started by simp
  then show ?thesis using len slots by blast
qed

text \<open>
  C8. When the group resolves, in whatever order its members settled, the result array has
  one slot per source, and for every index \<open>i\<close> slot \<open>i\<close> holds the settlement of the
  member built from \<open>sources[i]\<close>.
\<close>

theorem groupAsCancelablePromise_positional:
  "groupAsCancelablePromise pid sources config schedule = Some rs \<Longrightarrow>
   length rs = length sources
   \<and> (\<forall>i<length sources. rs ! i = Some (member_fate pid (sources ! i))
         \<and> member_fate pid (sources ! i) \<noteq> Unsettled)"
proof -
  assume "groupAsCancelablePromise pid sources config schedule = Some rs"
  then have "queue_empty (length sources) (run_group pid sources config schedule)"
    and "rs = results (run_group pid sources config schedule)"
    by (auto simp: groupAsCancelablePromise_def Let_def split: if_splits)
  then show ?thesis
    using queue_empty_results [OF run_group_inv, of sources pid config schedule] by simp
qed

theorem groupAsCancelablePromise_positional_witness:
  "groupAsCancelablePromise (Symbol 0 ''promise_identifier'')
     [Thunk (NativePromise (Fulfilled (JStr ''a''))), Thunk (NativePromise (Fulfilled (JStr ''b''))),
      Thunk (NativePromise (Fulfilled (JStr ''c'')))]
     (Some \<lparr>maxConcurrent = Some 2, executeInOrder = None\<rparr>) [1, 1, 0]
    = Some [Some (Fulfilled (JStr ''a'')), Some (Fulfilled (JStr ''b'')), Some (Fulfilled (JStr ''c''))]
   \<and> member_fate (Symbol 0 ''promise_identifier'') (Thunk (NativePromise (Fulfilled (JStr ''b''))))
       = Fulfilled (JStr ''b'')"
proof -
  let ?sources = "[Thunk (NativePromise (Fulfilled (JStr ''a''))),
      Thunk (NativePromise (Fulfilled (JStr ''b''))), Thunk (NativePromise (Fulfilled (JStr ''c'')))]"
  have run: "groupAsCancelablePromise (Symbol 0 ''promise_identifier'') ?sources
     (Some \<lparr>maxConcurrent = Some 2, executeInOrder = None\<rparr>) [1, 1, 0]
    = Some [Some (Fulfilled (JStr ''a'')), Some (Fulfilled (JStr ''b'')), Some (Fulfilled (JStr ''c''))]"
    by code_simp
  have "\<forall>i<length ?sources.
      [Some (Fulfilled (JStr ''a'')), Some (Fulfilled (JStr ''b'')), Some (Fulfilled (JStr ''c''))] ! i
        = Some (member_fate (Symbol 0 ''promise_identifier'') (?sources ! i))
      \<and> member_fate (Symbol 0 ''promise_identifier'') (?sources ! i) \<noteq> Unsettled"
    using groupAsCancelablePromise_positional [OF run] by blast
  moreover have "1 < length ?sources"
    by simp
  ultimately have "[Some (Fulfilled (JStr ''a'')), Some (Fulfilled (JStr ''b'')), Some (Fulfilled (JStr ''c''))] ! 1
      = Some (member_fate (Symbol 0 ''promise_identifier'') (?sources ! 1))"
    by blast
  then have "member_fate (Symbol 0 ''promise_identifier'') (Thunk (NativePromise (Fulfilled (JStr ''b''))))
       = Fulfilled (JStr ''b'')"
    by simp
  with run show ?thesis by simp
qed

text \<open>
  The group does resolve: when every member settles and at least one member may be in
  flight, the run in which the first member in flight is always the next to settle ends
  with the group resolved.
\<close>

lemma dispatch_in_flight:
  "in_flight_inv n m g \<Longrightarrow> 0 < limit \<Longrightarrow>
   in_flight_inv n m (dispatch limit n g)
   \<and> (active (dispatch limit n g) = [] \<longrightarrow> cursor (dispatch limit n g) = n)"
proof (induction limit n g rule: dispatch.induct)
  case (1 limit n g)
  show ?case
  proof (cases "length (active g) < limit \<and> cursor g < n")
    case True
    let ?g = "g\<lparr>cursor := Suc (cursor g), active := active g @ [cursor g],
                events := events g @ [BeforeEach]\<rparr>"
    have "in_flight_inv n m ?g"
      using "1.prems"(1) True by (auto simp: in_flight_inv_def less_Suc_eq)
    then have "in_flight_inv n m (dispatch limit n ?g)
        \<and> (active (dispatch limit n ?g) = [] \<longrightarrow> cursor (dispatch limit n ?g) = n)"
      using "1.IH" [OF True] "1.prems"(2) by simp
    moreover have "dispatch limit n g = dispatch limit n ?g"
      using True by (subst dispatch.simps) simp
    ultimately show ?thesis by simp
  next
    case False
    then have same: "dispatch limit n g = g"
      by (subst dispatch.simps) auto
    have "active g = [] \<longrightarrow> cursor g = n"
      using False "1.prems" by (auto simp: in_flight_inv_def)
    then show ?thesis using "1.prems"(1) same by simp
  qed
qed

lemma announce_fields: "cursor (announce n g) = cursor g" "active (announce n g) = active g"
  by (simp_all add: announce_def)

lemma announce_in_flight: "in_flight_inv n m (announce n' g) = in_flight_inv n m g"
  by (simp add: in_flight_inv_def announce_fields)

lemma first_settles_in_flight:
  assumes inv: "in_flight_inv (length sources) (Suc m) g"
    and ready: "active g = [] \<longrightarrow> cursor g = length sources"
    and limit: "0 < limit"
    and all: "\<forall>i<length sources. member_fate pid (sources ! i) \<noteq> Unsettled"
  shows "in_flight_inv (length sources) m (member_settles pid sources limit 0 g)
    \<and> (active (member_settles pid sources limit 0 g) = []
          \<longrightarrow> cursor (member_settles pid sources limit 0 g) = length sources)"
proof -
  let ?n = "length sources"
  have ne: "active g \<noteq> []"
    using inv ready by (auto simp: in_flight_inv_def)
  then obtain i rest where act: "active g = i # rest" by (cases "active g") auto
  have i: "i < ?n" using inv act by (auto simp: in_flight_inv_def)
  let ?next = "g\<lparr>active := rest, results := (results g)[i := Some (member_fate pid (sources ! i))],
              events := events g @ [AfterEach (member_fate pid (sources ! i))]\<rparr>"
  have step: "member_settles pid sources limit 0 g = announce ?n (dispatch limit ?n ?next)"
    using act i all by (simp add: member_settles_def Let_def)
  have "in_flight_inv ?n m ?next"
    using inv act by (auto simp: in_flight_inv_def)
  then have d: "in_flight_inv ?n m (dispatch limit ?n ?next)
      \<and> (active (dispatch limit ?n ?next) = [] \<longrightarrow> cursor (dispatch limit ?n ?next) = ?n)"
    using limit by (rule dispatch_in_flight)
  show ?thesis
    using d by (simp add: step announce_in_flight announce_fields)
qed

lemma first_always_settles:
  "in_flight_inv (length sources) m g \<Longrightarrow> (active g = [] \<longrightarrow> cursor g = length sources) \<Longrightarrow>
   0 < limit \<Longrightarrow> \<forall>i<length sources. member_fate pid (sources ! i) \<noteq> Unsettled \<Longrightarrow>
   queue_empty (length sources) (fold (member_settles pid sources limit) (replicate m 0) g)"
proof (induction m arbitrary: g)
  case 0
  then show ?case by (auto simp: in_flight_inv_def queue_empty_def)
next
  case (Suc m)
  have "in_flight_inv (length sources) m (member_settles pid sources limit 0 g)
    \<and> (active (member_settles pid sources limit 0 g) = []
          \<longrightarrow> cursor (member_settles pid sources limit 0 g) = length sources)"
    using Suc.prems by (intro first_settles_in_flight) simp_all
  then show ?case using Suc.IH [of "member_settles pid sources limit 0 g"] Suc.prems(3,4) by simp
qed

lemma group_resolves:
  assumes "0 < concurrency config"
    and "\<forall>i<length sources. member_fate pid (sources ! i) \<noteq> Unsettled"
  shows "\<exists>rs. groupAsCancelablePromise pid sources config (replicate (length sources) 0) = Some rs"
proof -
  let ?n = "length sources"
  let ?init = "\<lparr>cursor = 0, active = [], results = replicate ?n None, events = []\<rparr>"
  let ?g = "announce ?n (dispatch (concurrency config) ?n ?init)"
  have "in_flight_inv ?n ?n ?init" by (simp add: in_flight_inv_def)
  then have "in_flight_inv ?n ?n (dispatch (concurrency config) ?n ?init)
      \<and> (active (dispatch (concurrency config) ?n ?init) = []
            \<longrightarrow> cursor (dispatch (concurrency config) ?n ?init) = ?n)"
    using assms(1) by (rule dispatch_in_flight)
  then have "in_flight_inv ?n ?n ?g" "active ?g = [] \<longrightarrow> cursor ?g = ?n"
    by (simp_all add: announce_in_flight announce_fields)
  then have "queue_empty ?n (fold (member_settles pid sources (concurrency config)) (replicate ?n 0) ?g)"
    using assms by (intro first_always_settles) simp_all
  then show ?thesis by (simp add: groupAsCancelablePromise_def run_group_def Let_def)
qed

end
